theory Spec2Isabelle
  imports Complex_Main "HOL-Library.Char_ord" "HOL-Library.List_Lexorder" "HOL-Library.Log_Nat"
begin

section \<open>The entity store\<close>

text \<open>
  The ledger engine of the collection tracker (the database service) runs SQL statements
  against four tables. The tables are modelled as lists of rows in insertion order, the
  rows as records carrying the SQL column names, and every statement as a function on the
  store. Amounts are JavaScript numbers kept in \<open>REAL\<close> columns, that is, IEEE 754 doubles:
  they are modelled as the reals they denote, and every addition and subtraction the code
  makes is rounded to the nearest double by \<open>dbl_round\<close> below. Dates and timestamps are
  the strings the code stores.
\<close>

datatype collection_status = Collected | Skipped | Pending

record person =
  p_id :: nat
  p_name :: string
  p_phone :: "string option"
  p_location :: "string option"
  p_photo_path :: "string option"
  p_default_amount :: real
  p_frequency :: string
  p_notes :: "string option"
  p_is_active :: bool
  p_created_at :: string
  p_updated_at :: string

record cycle =
  cy_id :: nat
  cy_person_id :: nat
  cy_start_date :: string
  cy_end_date :: "string option"
  cy_total_amount :: real
  cy_is_active :: bool
  cy_withdrawal_date :: "string option"
  cy_notes :: "string option"

record collection =
  co_id :: nat
  co_person_id :: nat
  co_cycle_id :: nat
  co_date :: string
  co_amount :: "real option"
  co_status :: collection_status
  co_notes :: "string option"
  co_created_at :: string

record withdrawal =
  w_id :: nat
  w_person_id :: nat
  w_cycle_id :: nat
  w_amount :: real
  w_date :: string
  w_notes :: "string option"

text \<open>
  The store: the four tables and, for each, the \<open>sqlite_sequence\<close> counter that
  \<open>AUTOINCREMENT\<close> keeps (the largest row id the table has ever handed out).
\<close>

record db =
  people :: "person list"
  cycles :: "cycle list"
  collections :: "collection list"
  withdrawals :: "withdrawal list"
  seq_people :: nat
  seq_cycles :: nat
  seq_collections :: nat
  seq_withdrawals :: nat

text \<open>
  The two clock readings an operation makes: \<open>getTodayDate()\<close> (a \<open>YYYY-MM-DD\<close> string)
  and SQLite's \<open>datetime('now')\<close>. One operation reads the same value throughout.
\<close>

record clock =
  clk_today :: string
  clk_now :: string

datatype error =
    NoActiveCycle
  | InsufficientBalance
  | ForeignKeyFailed
  | UniqueFailed
  | ImportFailed error

type_synonym 'a outcome = "(error + 'a) \<times> db"

subsection \<open>Double arithmetic\<close>

text \<open>
  \<open>dbl_round x\<close> is the double nearest to \<open>x\<close>, ties going to the even significand
  (the IEEE 754 default, used by JavaScript and by SQLite): with \<open>2 ^ e \<le> |x| < 2 ^ (e + 1)\<close>
  the doubles around \<open>x\<close> are the multiples of \<open>2 ^ (e - 52)\<close>, and of \<open>2 ^ (-1074)\<close> in the
  subnormal range. A JavaScript \<open>x + y\<close> and an SQL \<open>total_amount + ?\<close> are
  \<open>dbl_round (x + y)\<close>. Every argument and every stored amount is a double. A result
  beyond the largest finite double \<open>dbl_max\<close>, which the code turns into \<open>Infinity\<close>, is not
  modelled: \<open>is_double\<close> keeps to the finite range.
\<close>

definition pow2 :: "int \<Rightarrow> real" where
  "pow2 q = (if 0 \<le> q then 2 ^ nat q else 1 / 2 ^ nat (- q))"

text \<open>The \<open>e\<close> with \<open>2 ^ e \<le> |x| < 2 ^ (e + 1)\<close>, for \<open>x \<noteq> 0\<close>.\<close>

definition binary_exponent :: "real \<Rightarrow> int" where
  "binary_exponent x =
     (if 1 \<le> \<bar>x\<bar> then bitlen \<lfloor>\<bar>x\<bar>\<rfloor> - 1 else - bitlen (\<lceil>1 / \<bar>x\<bar>\<rceil> - 1))"

definition round_half_even :: "real \<Rightarrow> int" where
  "round_half_even y =
     (let f = \<lfloor>y\<rfloor>
      in if y - of_int f < 1 / 2 then f
         else if 1 / 2 < y - of_int f then f + 1
         else if even f then f else f + 1)"

definition dbl_round :: "real \<Rightarrow> real" where
  "dbl_round x =
     (if x = 0 then 0
      else let q = max (binary_exponent x - 52) (- 1074)
           in of_int (round_half_even (x / pow2 q)) * pow2 q)"

text \<open>The largest finite double, \<open>(2 ^ 53 - 1) * 2 ^ 971\<close>.\<close>

definition dbl_max :: real where
  "dbl_max = (2 ^ 53 - 1) * 2 ^ 971"

text \<open>The reals that are finite doubles: in range, and rounding leaves them as they are.\<close>

definition is_double :: "real \<Rightarrow> bool" where
  "is_double x = (dbl_round x = x \<and> \<bar>x\<bar> \<le> dbl_max)"

subsection \<open>Helpers\<close>

definition getTodayDate :: "clock \<Rightarrow> string" where
  "getTodayDate clk = clk_today clk"

text \<open>\<open>AUTOINCREMENT\<close>: one more than the largest id in the table or ever used.\<close>

definition next_rowid :: "nat \<Rightarrow> nat list \<Rightarrow> nat" where
  "next_rowid sq ids = Suc (fold max ids sq)"

text \<open>JavaScript's \<open>notes || null\<close>: an absent or empty string is stored as NULL.\<close>

fun or_null :: "string option \<Rightarrow> string option" where
  "or_null None = None"
| "or_null (Some t) = (if t = [] then None else Some t)"

fun or_default :: "string option \<Rightarrow> string \<Rightarrow> string" where
  "or_default None d = d"
| "or_default (Some t) d = (if t = [] then d else t)"

definition person_exists :: "db \<Rightarrow> nat \<Rightarrow> bool" where
  "person_exists s pid = list_ex (\<lambda>p. p_id p = pid) (people s)"

definition cycle_exists :: "db \<Rightarrow> nat \<Rightarrow> bool" where
  "cycle_exists s cid = list_ex (\<lambda>c. cy_id c = cid) (cycles s)"

subsection \<open>Statements\<close>

text \<open>\<open>INSERT INTO people (...) VALUES (...)\<close>; the timestamps default to \<open>datetime('now')\<close>.\<close>

definition insert_person ::
  "clock \<Rightarrow> string \<Rightarrow> string option \<Rightarrow> string option \<Rightarrow> string option \<Rightarrow> real \<Rightarrow> string
     \<Rightarrow> string option \<Rightarrow> bool \<Rightarrow> db \<Rightarrow> nat outcome" where
  "insert_person clk nm ph loc photo amt freq nts act s =
     (let i = next_rowid (seq_people s) (map p_id (people s));
          row = \<lparr>p_id = i, p_name = nm, p_phone = ph, p_location = loc, p_photo_path = photo,
                 p_default_amount = amt, p_frequency = freq, p_notes = nts, p_is_active = act,
                 p_created_at = clk_now clk, p_updated_at = clk_now clk\<rparr>
      in (Inr i, s\<lparr>people := people s @ [row], seq_people := i\<rparr>))"

text \<open>
  \<open>INSERT INTO cycles (person_id, start_date, total_amount, is_active)\<close>. The schema
  declares \<open>FOREIGN KEY (person_id) REFERENCES people(id)\<close> and \<open>initializeDatabase\<close> runs
  \<open>PRAGMA foreign_keys = ON\<close>, so a cycle for a person that is not in \<open>people\<close> is refused
  and the statement throws. The same holds for the \<open>person_id\<close> and \<open>cycle_id\<close> columns of
  \<open>collections\<close> and \<open>withdrawals\<close> below. A statement that throws changes nothing.
\<close>

definition insert_cycle :: "nat \<Rightarrow> string \<Rightarrow> real \<Rightarrow> bool \<Rightarrow> db \<Rightarrow> nat outcome" where
  "insert_cycle pid start amt act s =
     (if \<not> person_exists s pid then (Inl ForeignKeyFailed, s)
      else
        let i = next_rowid (seq_cycles s) (map cy_id (cycles s));
            row = \<lparr>cy_id = i, cy_person_id = pid, cy_start_date = start, cy_end_date = None,
                   cy_total_amount = amt, cy_is_active = act, cy_withdrawal_date = None,
                   cy_notes = None\<rparr>
        in (Inr i, s\<lparr>cycles := cycles s @ [row], seq_cycles := i\<rparr>))"

definition new_collection ::
  "clock \<Rightarrow> nat \<Rightarrow> nat \<Rightarrow> string \<Rightarrow> real option \<Rightarrow> collection_status \<Rightarrow> string option
     \<Rightarrow> db \<Rightarrow> collection" where
  "new_collection clk pid cid d amt st nts s =
     \<lparr>co_id = next_rowid (seq_collections s) (map co_id (collections s)),
      co_person_id = pid, co_cycle_id = cid, co_date = d, co_amount = amt, co_status = st,
      co_notes = nts, co_created_at = clk_now clk\<rparr>"

text \<open>
  \<open>INSERT OR REPLACE INTO collections\<close>: the row that holds the same \<open>(person_id, date)\<close>
  (the table's \<open>UNIQUE(person_id, date)\<close> constraint) is deleted and the new row is inserted
  under a new id. \<open>created_at\<close> defaults to \<open>datetime('now')\<close>.
\<close>

definition insert_or_replace_collection ::
  "clock \<Rightarrow> nat \<Rightarrow> nat \<Rightarrow> string \<Rightarrow> real option \<Rightarrow> collection_status \<Rightarrow> string option
     \<Rightarrow> db \<Rightarrow> nat outcome" where
  "insert_or_replace_collection clk pid cid d amt st nts s =
     (if \<not> person_exists s pid \<or> \<not> cycle_exists s cid then (Inl ForeignKeyFailed, s)
      else
        let row = new_collection clk pid cid d amt st nts s
        in (Inr (co_id row),
            s\<lparr>collections :=
                 filter (\<lambda>c. \<not> (co_person_id c = pid \<and> co_date c = d)) (collections s) @ [row],
               seq_collections := co_id row\<rparr>))"

text \<open>Plain \<open>INSERT INTO collections\<close>: a second row for \<open>(person_id, date)\<close> is refused.\<close>

definition insert_collection ::
  "clock \<Rightarrow> nat \<Rightarrow> nat \<Rightarrow> string \<Rightarrow> real option \<Rightarrow> collection_status \<Rightarrow> string option
     \<Rightarrow> db \<Rightarrow> nat outcome" where
  "insert_collection clk pid cid d amt st nts s =
     (if list_ex (\<lambda>c. co_person_id c = pid \<and> co_date c = d) (collections s)
      then (Inl UniqueFailed, s)
      else if \<not> person_exists s pid \<or> \<not> cycle_exists s cid then (Inl ForeignKeyFailed, s)
      else
        let row = new_collection clk pid cid d amt st nts s
        in (Inr (co_id row),
            s\<lparr>collections := collections s @ [row], seq_collections := co_id row\<rparr>))"

text \<open>\<open>INSERT INTO withdrawals (person_id, cycle_id, amount, date, notes)\<close>.\<close>

definition insert_withdrawal ::
  "nat \<Rightarrow> nat \<Rightarrow> real \<Rightarrow> string \<Rightarrow> string option \<Rightarrow> db \<Rightarrow> nat outcome" where
  "insert_withdrawal pid cid amt d nts s =
     (if \<not> person_exists s pid \<or> \<not> cycle_exists s cid then (Inl ForeignKeyFailed, s)
      else
        let i = next_rowid (seq_withdrawals s) (map w_id (withdrawals s));
            row = \<lparr>w_id = i, w_person_id = pid, w_cycle_id = cid, w_amount = amt, w_date = d,
                   w_notes = nts\<rparr>
        in (Inr i, s\<lparr>withdrawals := withdrawals s @ [row], seq_withdrawals := i\<rparr>))"

text \<open>\<open>UPDATE cycles SET total_amount = total_amount + ? WHERE id = ?\<close>.\<close>

definition add_to_total :: "real \<Rightarrow> nat \<Rightarrow> db \<Rightarrow> db" where
  "add_to_total delta cid s =
     s\<lparr>cycles := map (\<lambda>c. if cy_id c = cid
                           then c\<lparr>cy_total_amount := dbl_round (cy_total_amount c + delta)\<rparr>
                           else c)
                     (cycles s)\<rparr>"

text \<open>\<open>DELETE FROM collections WHERE person_id = ? AND date = ?\<close>.\<close>

definition delete_collection :: "nat \<Rightarrow> string \<Rightarrow> db \<Rightarrow> db" where
  "delete_collection pid d s =
     s\<lparr>collections := filter (\<lambda>c. \<not> (co_person_id c = pid \<and> co_date c = d)) (collections s)\<rparr>"

section \<open>People\<close>

record person_input =
  pi_name :: string
  pi_phone :: "string option"
  pi_location :: "string option"
  pi_photo_path :: "string option"
  pi_default_amount :: real
  pi_frequency :: "string option"
  pi_notes :: "string option"
  pi_is_active :: bool

definition createCycle :: "clock \<Rightarrow> nat \<Rightarrow> db \<Rightarrow> nat outcome" where
  "createCycle clk personId s = insert_cycle personId (getTodayDate clk) 0 True s"

definition addPerson :: "clock \<Rightarrow> person_input \<Rightarrow> db \<Rightarrow> nat outcome" where
  "addPerson clk p s =
     (case insert_person clk (pi_name p) (or_null (pi_phone p)) (or_null (pi_location p))
             (or_null (pi_photo_path p)) (pi_default_amount p)
             (or_default (pi_frequency p) ''daily'') (or_null (pi_notes p)) (pi_is_active p) s of
        (Inl e, s1) \<Rightarrow> (Inl e, s1)
      | (Inr i, s1) \<Rightarrow>
          (case createCycle clk i s1 of
             (Inl e, s2) \<Rightarrow> (Inl e, s2)
           | (Inr _, s2) \<Rightarrow> (Inr i, s2)))"

text \<open>Soft delete: \<open>UPDATE people SET is_active = 0 WHERE id = ?\<close>.\<close>

definition deletePerson :: "nat \<Rightarrow> db \<Rightarrow> unit outcome" where
  "deletePerson i s =
     (Inr (), s\<lparr>people := map (\<lambda>p. if p_id p = i then p\<lparr>p_is_active := False\<rparr> else p)
                               (people s)\<rparr>)"

section \<open>Cycles\<close>

text \<open>
  \<open>getFirstAsync\<close> of the rows with \<open>person_id = ? AND is_active = 1\<close>: the first such row
  in row order (the query has no \<open>ORDER BY\<close>), or null.
\<close>

definition getActiveCycle :: "db \<Rightarrow> nat \<Rightarrow> cycle option" where
  "getActiveCycle s personId =
     find (\<lambda>c. cy_person_id c = personId \<and> cy_is_active c) (cycles s)"

definition closeCycle :: "clock \<Rightarrow> nat \<Rightarrow> db \<Rightarrow> db" where
  "closeCycle clk cycleId s =
     s\<lparr>cycles := map (\<lambda>c. if cy_id c = cycleId
                           then c\<lparr>cy_is_active := False, cy_end_date := Some (getTodayDate clk),
                                  cy_withdrawal_date := Some (clk_now clk)\<rparr>
                           else c)
                     (cycles s)\<rparr>"

text \<open>
  The manual correction path. Each given field is written into the \<open>SET\<close> list; with no
  field the function returns before any statement.
\<close>

definition updateCycleData :: "nat \<Rightarrow> real option \<Rightarrow> string option \<Rightarrow> db \<Rightarrow> unit outcome" where
  "updateCycleData cycleId totalAmount startDate s =
     (if totalAmount = None \<and> startDate = None then (Inr (), s)
      else
        (Inr (),
         s\<lparr>cycles :=
              map (\<lambda>c. if cy_id c = cycleId
                        then c\<lparr>cy_total_amount :=
                                 (case totalAmount of None \<Rightarrow> cy_total_amount c | Some t \<Rightarrow> t),
                               cy_start_date :=
                                 (case startDate of None \<Rightarrow> cy_start_date c | Some d \<Rightarrow> d)\<rparr>
                        else c)
                  (cycles s)\<rparr>))"

section \<open>Collections\<close>

definition getTodayCollection :: "clock \<Rightarrow> db \<Rightarrow> nat \<Rightarrow> collection option" where
  "getTodayCollection clk s personId =
     find (\<lambda>c. co_person_id c = personId \<and> co_date c = getTodayDate clk) (collections s)"

text \<open>
  \<open>(existingCollection?.status === 'collected' && existingCollection.amount) || 0\<close>:
  the amount of a collected row, and 0 for no row, a skipped row, a NULL or a zero amount.
\<close>

definition collected_amount :: "collection option \<Rightarrow> real" where
  "collected_amount r =
     (case r of
        None \<Rightarrow> 0
      | Some c \<Rightarrow>
          if co_status c = Collected
          then (case co_amount c of None \<Rightarrow> 0 | Some a \<Rightarrow> a)
          else 0)"

text \<open>
  The opening lines of \<open>recordCollection\<close> and \<open>skipCollection\<close>: the active cycle, or a
  new one when the person has none. Only the cycle's id is used afterwards.
\<close>

definition active_or_new_cycle :: "clock \<Rightarrow> nat \<Rightarrow> db \<Rightarrow> nat outcome" where
  "active_or_new_cycle clk personId s =
     (case getActiveCycle s personId of
        Some c \<Rightarrow> (Inr (cy_id c), s)
      | None \<Rightarrow> createCycle clk personId s)"

definition recordCollection :: "clock \<Rightarrow> nat \<Rightarrow> real \<Rightarrow> string option \<Rightarrow> db \<Rightarrow> unit outcome" where
  "recordCollection clk personId amount nts s =
     (case active_or_new_cycle clk personId s of
        (Inl e, s1) \<Rightarrow> (Inl e, s1)
      | (Inr cid, s1) \<Rightarrow>
          let existingAmount = collected_amount (getTodayCollection clk s1 personId);
              difference = dbl_round (amount - existingAmount)
          in (case insert_or_replace_collection clk personId cid (getTodayDate clk)
                     (Some amount) Collected (or_null nts) s1 of
                (Inl e, s2) \<Rightarrow> (Inl e, s2)
              | (Inr _, s2) \<Rightarrow> (Inr (), add_to_total difference cid s2)))"

definition skipCollection :: "clock \<Rightarrow> nat \<Rightarrow> string option \<Rightarrow> db \<Rightarrow> unit outcome" where
  "skipCollection clk personId nts s =
     (case active_or_new_cycle clk personId s of
        (Inl e, s1) \<Rightarrow> (Inl e, s1)
      | (Inr cid, s1) \<Rightarrow>
          (case insert_or_replace_collection clk personId cid (getTodayDate clk)
                  None Skipped (or_null nts) s1 of
             (Inl e, s2) \<Rightarrow> (Inl e, s2)
           | (Inr _, s2) \<Rightarrow> (Inr (), s2)))"

definition undoCollection :: "clock \<Rightarrow> nat \<Rightarrow> db \<Rightarrow> unit outcome" where
  "undoCollection clk personId s =
     (let amountToSubtract = collected_amount (getTodayCollection clk s personId);
          s1 = delete_collection personId (getTodayDate clk) s
      in if amountToSubtract > 0
         then (case getActiveCycle s1 personId of
                 Some c \<Rightarrow> (Inr (), add_to_total (- amountToSubtract) (cy_id c) s1)
               | None \<Rightarrow> (Inr (), s1))
         else (Inr (), s1))"

text \<open>
  \<open>SELECT ... FROM collections WHERE cycle_id = ? ORDER BY date DESC\<close>. Rows with equal
  keys come out in row order: the stable ascending sort of the reversed rows, reversed.
\<close>

definition getCollectionsByCycle :: "db \<Rightarrow> nat \<Rightarrow> collection list" where
  "getCollectionsByCycle s cycleId =
     rev (sort_key co_date (rev (filter (\<lambda>c. co_cycle_id c = cycleId) (collections s))))"

section \<open>Withdrawals\<close>

definition processWithdrawal :: "clock \<Rightarrow> nat \<Rightarrow> string option \<Rightarrow> db \<Rightarrow> nat outcome" where
  "processWithdrawal clk personId nts s =
     (case getActiveCycle s personId of
        None \<Rightarrow> (Inl NoActiveCycle, s)
      | Some c \<Rightarrow>
          (case insert_withdrawal personId (cy_id c) (cy_total_amount c) (clk_now clk)
                  (or_null nts) s of
             (Inl e, s1) \<Rightarrow> (Inl e, s1)
           | (Inr wid, s1) \<Rightarrow>
               (case createCycle clk personId (closeCycle clk (cy_id c) s1) of
                  (Inl e, s2) \<Rightarrow> (Inl e, s2)
                | (Inr _, s2) \<Rightarrow> (Inr wid, s2))))"

definition processPartialWithdrawal ::
  "clock \<Rightarrow> nat \<Rightarrow> real \<Rightarrow> string option \<Rightarrow> db \<Rightarrow> nat outcome" where
  "processPartialWithdrawal clk personId amount nts s =
     (case getActiveCycle s personId of
        None \<Rightarrow> (Inl NoActiveCycle, s)
      | Some c \<Rightarrow>
          if amount > cy_total_amount c then (Inl InsufficientBalance, s)
          else
            (case insert_withdrawal personId (cy_id c) amount (clk_now clk)
                    (Some (or_default nts ''Partial withdrawal'')) s of
               (Inl e, s1) \<Rightarrow> (Inl e, s1)
             | (Inr wid, s1) \<Rightarrow> (Inr wid, add_to_total (- amount) (cy_id c) s1)))"

section \<open>Backup restore\<close>

text \<open>
  One entry of the \<open>people\<close> array of a backup file, as the export writes it: the person
  row, its active cycle (or null), all its cycles, withdrawals and collections.
\<close>

record person_dump =
  pd_person :: person
  pd_activeCycle :: "cycle option"
  pd_cycles :: "cycle list"
  pd_withdrawals :: "withdrawal list"
  pd_collections :: "collection list"

text \<open>\<open>collection.amount || 0\<close>.\<close>

definition amount_or_zero :: "real option \<Rightarrow> real" where
  "amount_or_zero a = (case a of None \<Rightarrow> 0 | Some v \<Rightarrow> v)"

fun import_collections :: "clock \<Rightarrow> nat \<Rightarrow> nat \<Rightarrow> collection list \<Rightarrow> db \<Rightarrow> unit outcome" where
  "import_collections clk newPersonId newCycleId [] s = (Inr (), s)"
| "import_collections clk newPersonId newCycleId (c # cs) s =
     (case insert_collection clk newPersonId newCycleId (co_date c)
             (Some (amount_or_zero (co_amount c))) (co_status c) (or_null (co_notes c)) s of
        (Inl e, s1) \<Rightarrow> (Inl e, s1)
      | (Inr _, s1) \<Rightarrow> import_collections clk newPersonId newCycleId cs s1)"

fun import_withdrawals :: "clock \<Rightarrow> nat \<Rightarrow> nat \<Rightarrow> withdrawal list \<Rightarrow> db \<Rightarrow> unit outcome" where
  "import_withdrawals clk newPersonId newCycleId [] s = (Inr (), s)"
| "import_withdrawals clk newPersonId newCycleId (w # ws) s =
     (case insert_withdrawal newPersonId newCycleId (w_amount w)
             (or_default (Some (w_date w)) (getTodayDate clk)) (or_null (w_notes w)) s of
        (Inl e, s1) \<Rightarrow> (Inl e, s1)
      | (Inr _, s1) \<Rightarrow> import_withdrawals clk newPersonId newCycleId ws s1)"

text \<open>The body of the loop over \<open>data.people\<close>.\<close>

definition import_person :: "clock \<Rightarrow> person_dump \<Rightarrow> db \<Rightarrow> unit outcome" where
  "import_person clk personData s =
     (let p = pd_person personData in
      case insert_person clk (p_name p) (or_null (p_phone p)) (or_null (p_location p))
             (or_null (p_photo_path p)) (p_default_amount p)
             (or_default (Some (p_frequency p)) ''daily'') (or_null (p_notes p)) True s of
        (Inl e, s1) \<Rightarrow> (Inl e, s1)
      | (Inr newPersonId, s1) \<Rightarrow>
          let cycleStartDate =
                or_default (map_option cy_start_date (pd_activeCycle personData))
                  (getTodayDate clk);
              cycleTotal =
                (case pd_activeCycle personData of None \<Rightarrow> 0 | Some c \<Rightarrow> cy_total_amount c)
          in (case insert_cycle newPersonId cycleStartDate cycleTotal True s1 of
                (Inl e, s2) \<Rightarrow> (Inl e, s2)
              | (Inr newCycleId, s2) \<Rightarrow>
                  (case import_collections clk newPersonId newCycleId
                          (pd_collections personData) s2 of
                     (Inl e, s3) \<Rightarrow> (Inl e, s3)
                   | (Inr _, s3) \<Rightarrow>
                       import_withdrawals clk newPersonId newCycleId
                         (pd_withdrawals personData) s3)))"

fun import_people :: "clock \<Rightarrow> person_dump list \<Rightarrow> nat \<Rightarrow> db \<Rightarrow> nat outcome" where
  "import_people clk [] imported s = (Inr imported, s)"
| "import_people clk (personData # rest) imported s =
     (case import_person clk personData s of
        (Inl e, s1) \<Rightarrow> (Inl e, s1)
      | (Inr _, s1) \<Rightarrow> import_people clk rest (Suc imported) s1)"

text \<open>
  The four \<open>DELETE FROM\<close> statements empty the tables (the id counters stay), then the loop
  runs; any error is rethrown as "Failed to import backup".
\<close>

definition importDatabaseFromJSON :: "clock \<Rightarrow> person_dump list \<Rightarrow> db \<Rightarrow> nat outcome" where
  "importDatabaseFromJSON clk data s =
     (case import_people clk data 0
             (s\<lparr>collections := [], withdrawals := [], cycles := [], people := []\<rparr>) of
        (Inl e, s1) \<Rightarrow> (Inl (ImportFailed e), s1)
      | (Inr imported, s1) \<Rightarrow> (Inr imported, s1))"

subsection \<open>Backup export\<close>

text \<open>
  The queries the export runs for every active person, and the \<open>people\<close> array it writes.
  \<open>ORDER BY ... DESC\<close> keeps rows with equal keys in row order, as above.
\<close>

definition getAllPeople :: "db \<Rightarrow> person list" where
  "getAllPeople s = sort_key p_name (filter p_is_active (people s))"

definition getCyclesByPerson :: "db \<Rightarrow> nat \<Rightarrow> cycle list" where
  "getCyclesByPerson s personId =
     rev (sort_key cy_start_date (rev (filter (\<lambda>c. cy_person_id c = personId) (cycles s))))"

definition getAllCollectionsForPerson :: "db \<Rightarrow> nat \<Rightarrow> collection list" where
  "getAllCollectionsForPerson s personId =
     rev (sort_key co_date (rev (filter (\<lambda>c. co_person_id c = personId) (collections s))))"

definition getWithdrawalsByPerson :: "db \<Rightarrow> nat \<Rightarrow> withdrawal list" where
  "getWithdrawalsByPerson s personId =
     rev (sort_key w_date (rev (filter (\<lambda>w. w_person_id w = personId) (withdrawals s))))"

definition exportDatabaseAsJSON :: "db \<Rightarrow> person_dump list" where
  "exportDatabaseAsJSON s =
     map (\<lambda>p. \<lparr>pd_person = p, pd_activeCycle = getActiveCycle s (p_id p),
                 pd_cycles = getCyclesByPerson s (p_id p),
                 pd_withdrawals = getWithdrawalsByPerson s (p_id p),
                 pd_collections = getAllCollectionsForPerson s (p_id p)\<rparr>)
       (getAllPeople s)"

section \<open>Sequences of engine calls\<close>

datatype engine_call =
    AddPerson person_input
  | DeletePerson nat
  | RecordCollection nat real "string option"
  | SkipCollection nat "string option"
  | UndoCollection nat
  | ProcessWithdrawal nat "string option"
  | ProcessPartialWithdrawal nat real "string option"

text \<open>The store a call leaves behind, whether it returns or throws.\<close>

fun exec :: "clock \<Rightarrow> engine_call \<Rightarrow> db \<Rightarrow> db" where
  "exec clk (AddPerson p) s = snd (addPerson clk p s)"
| "exec clk (DeletePerson i) s = snd (deletePerson i s)"
| "exec clk (RecordCollection personId amount nts) s = snd (recordCollection clk personId amount nts s)"
| "exec clk (SkipCollection personId nts) s = snd (skipCollection clk personId nts s)"
| "exec clk (UndoCollection personId) s = snd (undoCollection clk personId s)"
| "exec clk (ProcessWithdrawal personId nts) s = snd (processWithdrawal clk personId nts s)"
| "exec clk (ProcessPartialWithdrawal personId amount nts) s =
     snd (processPartialWithdrawal clk personId amount nts s)"

text \<open>The stores after each call of a sequence; every call comes with its clock reading.\<close>

fun run :: "(clock \<times> engine_call) list \<Rightarrow> db \<Rightarrow> db list" where
  "run [] s = []"
| "run (c # cs) s = exec (fst c) (snd c) s # run cs (exec (fst c) (snd c) s)"

subsection \<open>Integrity conditions\<close>

definition active_cycles :: "db \<Rightarrow> nat \<Rightarrow> cycle list" where
  "active_cycles s personId =
     filter (\<lambda>c. cy_person_id c = personId \<and> cy_is_active c) (cycles s)"

text \<open>At most one active cycle for every person that owns a cycle.\<close>

definition one_active :: "db \<Rightarrow> bool" where
  "one_active s = list_all (\<lambda>c. length (active_cycles s (cy_person_id c)) \<le> 1) (cycles s)"

text \<open>The foreign key of \<open>cycles\<close>: every cycle belongs to a row of \<open>people\<close>.\<close>

definition cycles_fk :: "db \<Rightarrow> bool" where
  "cycles_fk s = list_all (\<lambda>c. person_exists s (cy_person_id c)) (cycles s)"

definition totals_nonneg :: "db \<Rightarrow> bool" where
  "totals_nonneg s = list_all (\<lambda>c. 0 \<le> cy_total_amount c) (cycles s)"

text \<open>The rows stored for a person and a date.\<close>

definition rows_for :: "db \<Rightarrow> nat \<Rightarrow> string \<Rightarrow> collection list" where
  "rows_for s personId d =
     filter (\<lambda>c. co_person_id c = personId \<and> co_date c = d) (collections s)"

text \<open>The two conditions the sequences of calls keep.\<close>

definition store_ok :: "db \<Rightarrow> bool" where
  "store_ok s = (cycles_fk s \<and> one_active s)"

subsection \<open>A small store\<close>

definition clock1 :: clock where
  "clock1 = \<lparr>clk_today = ''2025-01-10'', clk_now = ''2025-01-10 09:00:00''\<rparr>"

definition asha :: person where
  "asha = \<lparr>p_id = 1, p_name = ''Asha'', p_phone = None, p_location = None, p_photo_path = None,
           p_default_amount = 200, p_frequency = ''daily'', p_notes = None, p_is_active = True,
           p_created_at = ''2025-01-01 08:00:00'', p_updated_at = ''2025-01-01 08:00:00''\<rparr>"

definition cycle1 :: cycle where
  "cycle1 = \<lparr>cy_id = 1, cy_person_id = 1, cy_start_date = ''2025-01-01'', cy_end_date = None,
             cy_total_amount = 500, cy_is_active = True, cy_withdrawal_date = None,
             cy_notes = None\<rparr>"

definition paid_jan9 :: collection where
  "paid_jan9 = \<lparr>co_id = 1, co_person_id = 1, co_cycle_id = 1, co_date = ''2025-01-09'',
                co_amount = Some 500, co_status = Collected, co_notes = None,
                co_created_at = ''2025-01-09 09:00:00''\<rparr>"

text \<open>One person with an active cycle of 500, collected the day before \<open>clock1\<close>.\<close>

definition store1 :: db where
  "store1 = \<lparr>people = [asha], cycles = [cycle1], collections = [paid_jan9], withdrawals = [],
             seq_people = 1, seq_cycles = 1, seq_collections = 1, seq_withdrawals = 0\<rparr>"

text \<open>The same store after 50 has been collected from her on the date of \<open>clock1\<close>.\<close>

definition store2 :: db where
  "store2 = snd (recordCollection clock1 1 50 None store1)"


text \<open>\<open>store1\<close> after a full withdrawal, and the clock of a later restore.\<close>

definition store4 :: db where
  "store4 = snd (processWithdrawal clock1 1 None store1)"

definition clock2 :: clock where
  "clock2 = \<lparr>clk_today = ''2025-02-01'', clk_now = ''2025-02-01 10:00:00''\<rparr>"

text \<open>\<open>store1\<close> after the adjust screen has set the cycle total to \<open>2 ^ 53\<close>.\<close>

definition store5 :: db where
  "store5 = snd (updateCycleData 1 (Some 9007199254740992) None store1)"

text \<open>A second person to register.\<close>

definition ravi :: person_input where
  "ravi = \<lparr>pi_name = ''Ravi'', pi_phone = Some ''9000000001'', pi_location = None,
            pi_photo_path = None, pi_default_amount = 100, pi_frequency = None,
            pi_notes = Some [], pi_is_active = True\<rparr>"

text \<open>The store an upsert of today's row leaves: \<open>insert_or_replace_collection\<close> on today.\<close>

definition upserted ::
  "clock \<Rightarrow> nat \<Rightarrow> nat \<Rightarrow> real option \<Rightarrow> collection_status \<Rightarrow> string option \<Rightarrow> db \<Rightarrow> db" where
  "upserted clk p cid amt st nts s =
     s\<lparr>collections :=
          filter (\<lambda>c. \<not> (co_person_id c = p \<and> co_date c = getTodayDate clk)) (collections s)
            @ [new_collection clk p cid (getTodayDate clk) amt st nts s],
       seq_collections := co_id (new_collection clk p cid (getTodayDate clk) amt st nts s)\<rparr>"

section \<open>Doubles\<close>

lemma round_half_even_int [simp]: "round_half_even (of_int m) = m"
  by (simp add: round_half_even_def)

lemma pow2_pos [simp]: "0 < pow2 q"
  by (simp add: pow2_def)

lemma pow2_nonneg_exp: "0 \<le> q \<Longrightarrow> pow2 q = 2 ^ nat q"
  by (simp add: pow2_def)

lemma pow2_neg_exp: "q \<le> 0 \<Longrightarrow> pow2 q = 1 / 2 ^ nat (- q)"
  by (cases "q = 0") (auto simp: pow2_def)

text \<open>\<open>binary_exponent\<close> is the exponent of the binade of \<open>x\<close>.\<close>

lemma binary_exponent_bounds:
  assumes "x \<noteq> 0"
  shows "pow2 (binary_exponent x) \<le> \<bar>x\<bar> \<and> \<bar>x\<bar> < pow2 (binary_exponent x + 1)"
proof (cases "1 \<le> \<bar>x\<bar>")
  case True
  define n where "n = \<lfloor>\<bar>x\<bar>\<rfloor>"
  have n1: "1 \<le> n" using True by (simp add: n_def le_floor_iff)
  then have pos: "0 < n" by simp
  have bl: "1 \<le> bitlen n" using pos by (simp add: bitlen_alt_def)
  have e: "binary_exponent x = bitlen n - 1" using True by (simp add: binary_exponent_def n_def)
  have lo: "real_of_int n \<le> \<bar>x\<bar>" and hi: "\<bar>x\<bar> < real_of_int n + 1"
    by (simp_all add: n_def)
  from bitlen_bounds[OF pos] have b1: "2 ^ nat (bitlen n - 1) \<le> n" and b2: "n + 1 \<le> 2 ^ nat (bitlen n)"
    by simp_all
  have "real_of_int (2 ^ nat (bitlen n - 1)) \<le> real_of_int n"
    using b1 by (simp only: of_int_le_iff)
  then have "(2::real) ^ nat (bitlen n - 1) \<le> real_of_int n" by simp
  then have "(2::real) ^ nat (bitlen n - 1) \<le> \<bar>x\<bar>" using lo by (rule order_trans)
  moreover have "pow2 (binary_exponent x) = 2 ^ nat (bitlen n - 1)"
    using bl by (simp add: e pow2_nonneg_exp)
  ultimately have l: "pow2 (binary_exponent x) \<le> \<bar>x\<bar>" by simp
  have "real_of_int (n + 1) \<le> real_of_int (2 ^ nat (bitlen n))"
    using b2 by (simp only: of_int_le_iff)
  then have "real_of_int n + 1 \<le> (2::real) ^ nat (bitlen n)" by simp
  with hi have "\<bar>x\<bar> < (2::real) ^ nat (bitlen n)" by (rule less_le_trans)
  moreover have "pow2 (binary_exponent x + 1) = 2 ^ nat (bitlen n)"
    using bl by (simp add: e pow2_nonneg_exp)
  ultimately have "\<bar>x\<bar> < pow2 (binary_exponent x + 1)" by simp
  with l show ?thesis by simp
next
  case False
  then have lt1: "\<bar>x\<bar> < 1" by simp
  have xpos: "0 < \<bar>x\<bar>" using assms by simp
  define m where "m = \<lceil>1 / \<bar>x\<bar>\<rceil>"
  define k where "k = bitlen (m - 1)"
  have inv: "1 < 1 / \<bar>x\<bar>" using lt1 xpos by simp
  have m_hi: "1 / \<bar>x\<bar> \<le> real_of_int m" and m_lo: "real_of_int m - 1 < 1 / \<bar>x\<bar>"
    by (simp_all add: m_def) linarith
  have m2: "2 \<le> m" using inv m_hi by linarith
  then have pos: "0 < m - 1" by simp
  have k1: "1 \<le> k" using pos by (simp add: k_def bitlen_alt_def)
  have e: "binary_exponent x = - k" using False by (simp add: binary_exponent_def m_def k_def)
  from bitlen_bounds[OF pos] have b1: "2 ^ nat (k - 1) \<le> m - 1" and b2: "m \<le> 2 ^ nat k"
    by (simp_all add: k_def)
  have "real_of_int m \<le> real_of_int (2 ^ nat k)"
    using b2 by (simp only: of_int_le_iff)
  then have "real_of_int m \<le> (2::real) ^ nat k" by simp
  with m_hi have "1 / \<bar>x\<bar> \<le> 2 ^ nat k" by linarith
  then have "1 \<le> 2 ^ nat k * \<bar>x\<bar>" using xpos by (simp add: pos_divide_le_eq)
  then have l: "1 / 2 ^ nat k \<le> \<bar>x\<bar>" by (simp add: pos_divide_le_eq mult.commute)
  have "real_of_int (2 ^ nat (k - 1)) \<le> real_of_int (m - 1)"
    using b1 by (simp only: of_int_le_iff)
  then have "(2::real) ^ nat (k - 1) \<le> real_of_int m - 1" by simp
  with m_lo have "2 ^ nat (k - 1) < 1 / \<bar>x\<bar>" by linarith
  then have "2 ^ nat (k - 1) * \<bar>x\<bar> < 1" using xpos by (simp add: pos_less_divide_eq)
  then have h: "\<bar>x\<bar> < 1 / 2 ^ nat (k - 1)" by (simp add: pos_less_divide_eq mult.commute)
  have "pow2 (- k) = 1 / 2 ^ nat k" using k1 by (simp add: pow2_neg_exp)
  moreover have "pow2 (- k + 1) = 1 / 2 ^ nat (k - 1)"
    using k1 pow2_neg_exp[of "- k + 1"] by simp
  ultimately show ?thesis using l h by (simp add: e)
qed

text \<open>\<open>dbl_round x\<close> is within half a spacing of \<open>x\<close>.\<close>

lemma round_half_even_nearest: "\<bar>of_int (round_half_even y) - y\<bar> \<le> 1 / 2"
proof -
  have "of_int \<lfloor>y\<rfloor> \<le> y" "y < of_int \<lfloor>y\<rfloor> + 1" by linarith+
  then show ?thesis by (auto simp: round_half_even_def Let_def)
qed

lemma dbl_round_nearest:
  "\<bar>dbl_round x - x\<bar> \<le> pow2 (max (binary_exponent x - 52) (- 1074)) / 2"
proof (cases "x = 0")
  case True
  then show ?thesis by (simp add: dbl_round_def less_imp_le)
next
  case False
  define u where "u = pow2 (max (binary_exponent x - 52) (- 1074))"
  have u: "0 < u" by (simp add: u_def)
  have dr: "dbl_round x = of_int (round_half_even (x / u)) * u"
    using False by (simp add: dbl_round_def Let_def u_def)
  have "dbl_round x - x = (of_int (round_half_even (x / u)) - x / u) * u"
    using u by (simp add: dr algebra_simps)
  then have "\<bar>dbl_round x - x\<bar> = \<bar>of_int (round_half_even (x / u)) - x / u\<bar> * u"
    using u by (simp add: abs_mult)
  also have "\<dots> \<le> 1 / 2 * u"
    using u round_half_even_nearest[of "x / u"] by (intro mult_right_mono) simp_all
  finally show ?thesis by (simp add: u_def)
qed

text \<open>Every whole number up to \<open>2 ^ 53\<close> in magnitude is a double.\<close>

lemma dbl_round_of_int:
  assumes "\<bar>n\<bar> \<le> 2 ^ 53"
  shows "dbl_round (of_int n) = of_int n"
proof (cases "n = 0")
  case True
  then show ?thesis by (simp add: dbl_round_def)
next
  case False
  then have pos: "0 < \<bar>n\<bar>" by simp
  define k where "k = bitlen \<bar>n\<bar> - 1"
  have b: "2 ^ nat k \<le> \<bar>n\<bar>"
    using bitlen_bounds[OF pos] by (simp add: k_def)
  have k0: "0 \<le> k" using pos by (simp add: k_def bitlen_alt_def)
  have "(2::int) ^ nat k \<le> 2 ^ 53" using b assms by linarith
  then have "nat k \<le> 53" by (rule power_le_imp_le_exp[rotated]) simp
  then have k53: "k \<le> 53" by linarith
  have ge1: "1 \<le> \<bar>real_of_int n\<bar>" using pos by linarith
  have fl: "\<lfloor>\<bar>real_of_int n\<bar>\<rfloor> = \<bar>n\<bar>"
    by (metis floor_of_int of_int_abs)
  have ex: "binary_exponent (of_int n) = k"
    using ge1 fl by (simp add: binary_exponent_def k_def)
  define q where "q = k - 52"
  have q: "max (binary_exponent (of_int n) - 52) (- 1074) = q"
    using k0 ex by (simp add: q_def)
  have unfold: "dbl_round (of_int n) = of_int (round_half_even (of_int n / pow2 q)) * pow2 q"
    using False by (simp add: dbl_round_def Let_def q)
  show ?thesis
  proof (cases "q \<le> 0")
    case True
    define j where "j = nat (- q)"
    have p: "pow2 q = 1 / 2 ^ j"
      using True by (cases "q = 0") (auto simp: pow2_def j_def)
    have "real_of_int n / pow2 q = of_int (n * 2 ^ j)"
      by (simp add: p)
    then have "round_half_even (real_of_int n / pow2 q) = n * 2 ^ j"
      by (simp only: round_half_even_int)
    then show ?thesis
      unfolding unfold by (simp add: p)
  next
    case False
    with k53 have k: "k = 53" by (simp add: q_def)
    then have "2 ^ 53 \<le> \<bar>n\<bar>" using b by simp
    with assms have "\<bar>n\<bar> = 2 ^ 53" by linarith
    then have n: "n = 2 ^ 53 \<or> n = - (2 ^ 53)" by linarith
    have p: "pow2 q = 2" using k by (simp add: pow2_def q_def)
    have "real_of_int n / 2 = of_int (n div 2)"
      using n by auto
    then have r: "round_half_even (real_of_int n / 2) = n div 2"
      by (simp only: round_half_even_int)
    have "real_of_int (n div 2) * 2 = real_of_int n" using n by auto
    then show ?thesis
      unfolding unfold p r .
  qed
qed

lemma dbl_round_zero [simp]: "dbl_round 0 = 0"
  by (simp add: dbl_round_def)

lemma dbl_round_one [simp]: "dbl_round 1 = 1"
  using dbl_round_of_int[of 1] by simp

lemma dbl_round_numeral [simp]:
  "numeral k \<le> (9007199254740992::int) \<Longrightarrow> dbl_round (numeral k) = numeral k"
  using dbl_round_of_int[of "numeral k"] by simp

lemma dbl_round_neg_numeral [simp]:
  "numeral k \<le> (9007199254740992::int) \<Longrightarrow> dbl_round (- numeral k) = - numeral k"
  using dbl_round_of_int[of "- numeral k"] by simp

lemma is_double_of_int:
  assumes "\<bar>n\<bar> \<le> 2 ^ 53"
  shows "is_double (of_int n)"
proof -
  have "\<bar>real_of_int n\<bar> \<le> 2 ^ 53" using assms by (metis of_int_abs of_int_le_numeral_power_cancel_iff)
  also have "(2::real) ^ 53 \<le> dbl_max" by (simp add: dbl_max_def)
  finally show ?thesis using assms by (simp add: is_double_def dbl_round_of_int)
qed

lemma is_double_zero [simp]: "is_double 0"
  using is_double_of_int[of 0] by simp

lemma is_double_numeral [simp]:
  "numeral k \<le> (9007199254740992::int) \<Longrightarrow> is_double (numeral k)"
  using is_double_of_int[of "numeral k"] by simp

text \<open>\<open>2 ^ 53 + 1\<close> lies halfway between two doubles and goes to the even one, \<open>2 ^ 53\<close>.\<close>

lemma dbl_round_above_2p53: "dbl_round 9007199254740993 = 9007199254740992"
  by (simp add: dbl_round_def binary_exponent_def round_half_even_def pow2_def compute_bitlen
      Let_def)

section \<open>Lookups and statements\<close>

lemma find_append_cases:
  "find P (xs @ ys) = (case find P xs of None \<Rightarrow> find P ys | Some x \<Rightarrow> Some x)"
  by (induction xs) auto

lemma find_filter_neg: "find P (filter (\<lambda>x. \<not> P x) xs) = None"
  by (induction xs) auto

lemma find_map_stable:
  "(\<And>x. P (f x) = P x) \<Longrightarrow> find P (map f xs) = map_option f (find P xs)"
  by (induction xs) auto

lemma find_Some_mem: "find P xs = Some x \<Longrightarrow> x \<in> set xs \<and> P x"
  by (induction xs) (auto split: if_splits)

lemma find_by_key_distinct:
  "distinct (map f xs) \<Longrightarrow> x \<in> set xs \<Longrightarrow> find (\<lambda>y. f y = f x) xs = Some x"
  by (induction xs) (auto simp: image_iff)

lemma filter_at_most_one:
  "length (filter P xs) \<le> 1 \<Longrightarrow> x \<in> set xs \<Longrightarrow> P x \<Longrightarrow> y \<in> set xs \<Longrightarrow> P y \<Longrightarrow> x = y"
proof -
  assume l: "length (filter P xs) \<le> 1" and "x \<in> set xs" "P x" "y \<in> set xs" "P y"
  then have m: "x \<in> set (filter P xs)" "y \<in> set (filter P xs)" by simp_all
  show "x = y"
  proof (cases "filter P xs")
    case Nil
    with m show ?thesis by simp
  next
    case (Cons z zs)
    with l have "zs = []" by simp
    with Cons m show ?thesis by simp
  qed
qed


lemma fold_max_ge_start: "(sq::nat) \<le> fold max ids sq"
  by (induction ids arbitrary: sq) (auto intro: order_trans[OF max.cobounded2])

lemma fold_max_ge_mem: "(i::nat) \<in> set ids \<Longrightarrow> i \<le> fold max ids sq"
proof (induction ids arbitrary: sq)
  case Nil
  then show ?case by simp
next
  case (Cons j ids)
  show ?case
  proof (cases "i = j")
    case True
    have "j \<le> max j sq" by simp
    also have "\<dots> \<le> fold max ids (max j sq)" by (rule fold_max_ge_start)
    finally show ?thesis using True by simp
  next
    case False
    with Cons show ?thesis by simp
  qed
qed

lemma next_rowid_fresh: "next_rowid sq ids \<notin> set ids"
  using fold_max_ge_mem[of "next_rowid sq ids" ids sq] by (auto simp: next_rowid_def)

lemma getActiveCycle_mem:
  "getActiveCycle s p = Some c \<Longrightarrow> c \<in> set (cycles s) \<and> cy_person_id c = p \<and> cy_is_active c"
  unfolding getActiveCycle_def by (drule find_Some_mem) simp

lemma getActiveCycle_exists: "getActiveCycle s p = Some c \<Longrightarrow> cycle_exists s (cy_id c)"
  by (auto simp: cycle_exists_def list_ex_iff dest: getActiveCycle_mem)

lemma getActiveCycle_add_to_total:
  "getActiveCycle (add_to_total d cid s) p =
     map_option (\<lambda>c. if cy_id c = cid
                      then c\<lparr>cy_total_amount := dbl_round (cy_total_amount c + d)\<rparr> else c)
       (getActiveCycle s p)"
  unfolding getActiveCycle_def add_to_total_def
  by (simp add: find_map_stable)

lemma getActiveCycle_add_to_total_own:
  "getActiveCycle s p = Some c \<Longrightarrow>
   getActiveCycle (add_to_total d (cy_id c) s) p =
     Some (c\<lparr>cy_total_amount := dbl_round (cy_total_amount c + d)\<rparr>)"
  by (simp add: getActiveCycle_add_to_total)

lemma getActiveCycle_add_to_total_exact:
  "getActiveCycle s p = Some c \<Longrightarrow> is_double (cy_total_amount c + d) \<Longrightarrow>
   getActiveCycle (add_to_total d (cy_id c) s) p =
     Some (c\<lparr>cy_total_amount := cy_total_amount c + d\<rparr>)"
  by (simp add: getActiveCycle_add_to_total is_double_def)

lemma person_exists_add_to_total [simp]:
  "person_exists (add_to_total d cid s) p = person_exists s p"
  by (simp add: person_exists_def add_to_total_def)

lemma collections_add_to_total [simp]:
  "collections (add_to_total d cid s) = collections s"
  by (simp add: add_to_total_def)

lemma getTodayCollection_add_to_total [simp]:
  "getTodayCollection clk (add_to_total d cid s) p = getTodayCollection clk s p"
  by (simp add: getTodayCollection_def)

lemma insert_or_replace_ok:
  "person_exists s p \<Longrightarrow> cycle_exists s cid \<Longrightarrow>
   insert_or_replace_collection clk p cid (getTodayDate clk) amt st nts s =
     (Inr (co_id (new_collection clk p cid (getTodayDate clk) amt st nts s)), upserted clk p cid amt st nts s)"
  by (simp add: insert_or_replace_collection_def upserted_def Let_def)

lemma recordCollection_active:
  assumes "person_exists s p" and "getActiveCycle s p = Some c"
  shows "recordCollection clk p a nts s =
           (Inr (), add_to_total (dbl_round (a - collected_amount (getTodayCollection clk s p)))
                      (cy_id c)
                      (upserted clk p (cy_id c) (Some a) Collected (or_null nts) s))"
  using assms getActiveCycle_exists[OF assms(2)]
  by (simp add: recordCollection_def active_or_new_cycle_def insert_or_replace_ok)

lemma skipCollection_active:
  assumes "person_exists s p" and "getActiveCycle s p = Some c"
  shows "skipCollection clk p nts s = (Inr (), upserted clk p (cy_id c) None Skipped (or_null nts) s)"
  using assms getActiveCycle_exists[OF assms(2)]
  by (simp add: skipCollection_def active_or_new_cycle_def insert_or_replace_ok)

lemma getTodayCollection_upserted:
  "getTodayCollection clk (upserted clk p cid amt st nts s) p =
     Some (new_collection clk p cid (getTodayDate clk) amt st nts s)"
proof -
  let ?P = "\<lambda>c. co_person_id c = p \<and> co_date c = getTodayDate clk"
  have "find ?P (filter (\<lambda>c. \<not> ?P c) (collections s)) = None"
    by (rule find_filter_neg)
  moreover have "?P (new_collection clk p cid (getTodayDate clk) amt st nts s)"
    by (simp add: new_collection_def)
  ultimately show ?thesis
    unfolding getTodayCollection_def upserted_def by (simp add: find_append_cases)
qed

lemma rows_for_upserted:
  "rows_for (upserted clk p cid amt st nts s) p (getTodayDate clk) =
     [new_collection clk p cid (getTodayDate clk) amt st nts s]"
  by (simp add: rows_for_def upserted_def new_collection_def)

lemma cycles_upserted [simp]: "cycles (upserted clk p cid amt st nts s) = cycles s"
  by (simp add: upserted_def)

lemma people_upserted [simp]: "people (upserted clk p cid amt st nts s) = people s"
  by (simp add: upserted_def)

lemma getActiveCycle_upserted [simp]:
  "getActiveCycle (upserted clk p cid amt st nts s) q = getActiveCycle s q"
  by (simp add: getActiveCycle_def)

lemma person_exists_upserted [simp]:
  "person_exists (upserted clk p cid amt st nts s) q = person_exists s q"
  by (simp add: person_exists_def)

lemma getTodayCollection_same_day:
  "getTodayDate clk2 = getTodayDate clk1 \<Longrightarrow> getTodayCollection clk2 s p = getTodayCollection clk1 s p"
  by (simp add: getTodayCollection_def)

lemma collected_amount_new [simp]:
  "collected_amount (Some (new_collection clk p cid d (Some a) Collected nts s)) = a"
  "collected_amount (Some (new_collection clk p cid d None Skipped nts s)) = 0"
  by (simp_all add: collected_amount_def new_collection_def)

lemmas store_defs =
  store1_def store2_def asha_def cycle1_def paid_jan9_def clock1_def getTodayDate_def
  person_exists_def cycle_exists_def next_rowid_def new_collection_def
  insert_person_def insert_cycle_def insert_or_replace_collection_def insert_collection_def
  insert_withdrawal_def add_to_total_def delete_collection_def createCycle_def
  getActiveCycle_def closeCycle_def getTodayCollection_def collected_amount_def
  active_or_new_cycle_def recordCollection_def skipCollection_def undoCollection_def
  processWithdrawal_def processPartialWithdrawal_def addPerson_def deletePerson_def
  updateCycleData_def rows_for_def Let_def

section \<open>Recording the same date twice\<close>




section \<open>Undo\<close>

lemma getTodayCollection_None_filter:
  "getTodayCollection clk s p = None \<Longrightarrow>
   filter (\<lambda>c. \<not> (co_person_id c = p \<and> co_date c = getTodayDate clk)) (collections s) = collections s"
  by (auto simp: getTodayCollection_def find_None_iff filter_id_conv)

lemma row_of_id:
  "distinct (map cy_id xs) \<Longrightarrow> c \<in> set xs \<Longrightarrow> x \<in> set xs \<Longrightarrow> cy_id x = cy_id c \<Longrightarrow> x = c"
  by (auto simp: distinct_map dest: inj_onD)

lemma map_id_replace:
  "cy_id c' = cy_id c \<Longrightarrow> map cy_id (map (\<lambda>x. if x = c then c' else x) xs) = map cy_id xs"
  by (induction xs) auto

lemma replace_back:
  "c' \<notin> set xs \<Longrightarrow> map (\<lambda>x. if x = c' then c else x) (map (\<lambda>x. if x = c then c' else x) xs) = xs"
  by (induction xs) auto

text \<open>With cycle ids a primary key, an exact addition to the total of \<open>c\<close> changes only \<open>c\<close>.\<close>

lemma cycles_add_to_total_exact:
  assumes "distinct (map cy_id (cycles s))" and "c \<in> set (cycles s)"
    and "is_double (cy_total_amount c + d)"
  shows "cycles (add_to_total d (cy_id c) s) =
           map (\<lambda>x. if x = c then c\<lparr>cy_total_amount := cy_total_amount c + d\<rparr> else x) (cycles s)"
proof -
  have "(if cy_id x = cy_id c then x\<lparr>cy_total_amount := dbl_round (cy_total_amount x + d)\<rparr> else x) =
        (if x = c then c\<lparr>cy_total_amount := cy_total_amount c + d\<rparr> else x)"
    if "x \<in> set (cycles s)" for x
    using row_of_id[OF assms(1,2) that] assms(3) by (auto simp: is_double_def)
  then show ?thesis by (simp add: add_to_total_def cong: map_cong)
qed

text \<open>
  Claim C5, as amended. For a person in \<open>people\<close> with an active cycle of total \<open>T\<close> (cycle
  ids being a primary key) and no row for today, and an amount \<open>a \<ge> 0\<close> for which \<open>T + a\<close>
  is a double (no rounding, as with a whole amount and a total up to \<open>2 ^ 53\<close>),
  \<open>recordCollection(p, a)\<close> followed by \<open>undoCollection(p)\<close> on the same day both return
  and restore the store: the active cycle is the one it was, with its total, no row is stored
  for the person and the day, and all four tables hold what they held (only the id counter
  of \<open>collections\<close> has moved on).
\<close>

theorem record_then_undo_roundtrip:
  assumes "person_exists s p" and "getActiveCycle s p = Some c"
    and "getTodayCollection clk1 s p = None"
    and "getTodayDate clk2 = getTodayDate clk1"
    and "0 \<le> a"
    and "distinct (map cy_id (cycles s))"
    and "is_double a" and "is_double (cy_total_amount c)" and "is_double (cy_total_amount c + a)"
  shows "let r1 = recordCollection clk1 p a nts s; r2 = undoCollection clk2 p (snd r1) in
           fst r1 = Inr () \<and> fst r2 = Inr () \<and>
           getActiveCycle (snd r1) p = Some (c\<lparr>cy_total_amount := cy_total_amount c + a\<rparr>) \<and>
           getActiveCycle (snd r2) p = Some c \<and>
           getTodayCollection clk1 (snd r2) p = None \<and>
           rows_for (snd r2) p (getTodayDate clk1) = [] \<and>
           cycles (snd r2) = cycles s \<and> collections (snd r2) = collections s \<and>
           people (snd r2) = people s \<and> withdrawals (snd r2) = withdrawals s"
proof -
  let ?u = "upserted clk1 p (cy_id c) (Some a) Collected (or_null nts) s"
  let ?s1 = "add_to_total a (cy_id c) ?u"
  let ?c1 = "c\<lparr>cy_total_amount := cy_total_amount c + a\<rparr>"
  have cmem: "c \<in> set (cycles s)" using getActiveCycle_mem[OF assms(2)] by simp
  have e0: "collected_amount (getTodayCollection clk1 s p) = 0"
    using assms(3) by (simp add: collected_amount_def)
  have da: "dbl_round a = a" using assms(7) by (simp add: is_double_def)
  have r1: "recordCollection clk1 p a nts s = (Inr (), ?s1)"
    using recordCollection_active[OF assms(1,2), of clk1 a nts] e0 da by simp
  have today1: "collected_amount (getTodayCollection clk2 ?s1 p) = a"
    using getTodayCollection_same_day[OF assms(4), of ?s1 p]
    by (simp add: getTodayCollection_upserted)
  have "getActiveCycle ?u p = Some c" using assms(2) by simp
  from getActiveCycle_add_to_total_exact[OF this assms(9)]
  have ac1: "getActiveCycle ?s1 p = Some ?c1" .
  have cy1: "cycles ?s1 = map (\<lambda>x. if x = c then ?c1 else x) (cycles s)"
    using cycles_add_to_total_exact[of ?u c a] assms(6,9) cmem by simp
  let ?d = "delete_collection p (getTodayDate clk2) ?s1"
  have colls: "collections ?d = collections s"
    using getTodayCollection_None_filter[OF assms(3)] assms(4)
    by (simp add: delete_collection_def upserted_def new_collection_def)
  have cyd: "cycles ?d = cycles ?s1" by (simp add: delete_collection_def)
  have ac1': "getActiveCycle ?d p = Some ?c1"
    using ac1 by (simp add: delete_collection_def getActiveCycle_def)
  have rest: "people ?d = people s" "withdrawals ?d = withdrawals s"
    by (simp_all add: delete_collection_def add_to_total_def upserted_def)
  let ?s2 = "snd (undoCollection clk2 p ?s1)"
  have r2: "fst (undoCollection clk2 p ?s1) = Inr ()"
    using today1 ac1' by (simp add: undoCollection_def Let_def)
  have c2: "cycles ?s2 = cycles s"
  proof (cases "0 < a")
    case True
    have s2: "?s2 = add_to_total (- a) (cy_id ?c1) ?d"
      using True today1 ac1' by (simp add: undoCollection_def Let_def)
    have "map cy_id (cycles ?d) = map cy_id (cycles s)"
      unfolding cyd cy1 by (rule map_id_replace) simp
    with assms(6) have dist: "distinct (map cy_id (cycles ?d))" by simp
    have mem: "?c1 \<in> set (cycles ?d)"
      using getActiveCycle_mem[OF ac1'] by simp
    have ex: "is_double (cy_total_amount ?c1 + - a)"
      using assms(8) by simp
    have "cycles ?s2 =
        map (\<lambda>x. if x = ?c1 then ?c1\<lparr>cy_total_amount := cy_total_amount ?c1 + - a\<rparr> else x)
          (cycles ?d)"
      unfolding s2 by (rule cycles_add_to_total_exact[OF dist mem ex])
    also have "\<dots> = map (\<lambda>x. if x = ?c1 then c else x) (map (\<lambda>x. if x = c then ?c1 else x) (cycles s))"
      by (simp add: cyd cy1)
    also have "\<dots> = cycles s"
    proof (rule replace_back)
      show "?c1 \<notin> set (cycles s)"
      proof
        assume "?c1 \<in> set (cycles s)"
        from row_of_id[OF assms(6) cmem this] have "?c1 = c" by simp
        then have "cy_total_amount ?c1 = cy_total_amount c" by simp
        with True show False by simp
      qed
    qed
    finally show ?thesis .
  next
    case False
    with assms(5) have a0: "a = 0" by simp
    have "?s2 = ?d" using a0 today1 by (simp add: undoCollection_def Let_def)
    then show ?thesis using a0 cy1 cyd by (simp add: map_idI)
  qed
  have k2: "collections ?s2 = collections s"
    using colls today1 ac1' by (simp add: undoCollection_def Let_def add_to_total_def)
  have p2: "people ?s2 = people s" "withdrawals ?s2 = withdrawals s"
    using rest today1 ac1' by (simp_all add: undoCollection_def Let_def add_to_total_def)
  have a2: "getActiveCycle ?s2 p = Some c"
    using assms(2) c2 by (simp add: getActiveCycle_def)
  have t2: "getTodayCollection clk1 ?s2 p = None"
    using assms(3) k2 by (simp add: getTodayCollection_def)
  have rw: "rows_for ?s2 p (getTodayDate clk1) = []"
    using assms(3) k2 by (auto simp: rows_for_def getTodayCollection_def find_None_iff filter_empty_conv)
  show ?thesis
    unfolding Let_def r1 snd_conv fst_conv
    using r2 ac1 c2 k2 p2 a2 t2 rw by simp
qed

theorem record_then_undo_roundtrip_witness:
  "person_exists store1 1 \<and> getActiveCycle store1 1 = Some cycle1 \<and>
   getTodayCollection clock1 store1 1 = None \<and> (0::real) \<le> 200 \<and>
   getActiveCycle (snd (recordCollection clock1 1 200 None store1)) 1
     = Some (cycle1\<lparr>cy_total_amount := 700\<rparr>) \<and>
   getActiveCycle (snd (undoCollection clock1 1 (snd (recordCollection clock1 1 200 None store1)))) 1
     = Some cycle1 \<and>
   collections (snd (undoCollection clock1 1 (snd (recordCollection clock1 1 200 None store1))))
     = [paid_jan9]"
proof -
  have h1: "person_exists store1 1" by (simp add: store_defs)
  have h2: "getActiveCycle store1 1 = Some cycle1" by (simp add: store_defs)
  have h3: "getTodayCollection clock1 store1 1 = None" by (simp add: store_defs)
  have h5: "(0::real) \<le> 200" by simp
  have h6: "distinct (map cy_id (cycles store1))" by (simp add: store_defs)
  have h7: "is_double 200" "is_double (cy_total_amount cycle1)"
    "is_double (cy_total_amount cycle1 + 200)"
    by (simp_all add: cycle1_def)
  have c: "collections store1 = [paid_jan9]" by (simp add: store1_def)
  from record_then_undo_roundtrip[OF h1 h2 h3 refl h5 h6 h7, of None]
  show ?thesis using h1 h2 h3 c by (simp add: Let_def cycle1_def)
qed

text \<open>
  On \<open>store5\<close> the total is \<open>2 ^ 53\<close> and today holds no row. Recording 1 leaves the total
  at \<open>2 ^ 53\<close> (the sum is rounded back) and the undo then subtracts 1: the total ends at
  \<open>2 ^ 53 - 1\<close>.
\<close>

theorem record_then_undo_rounding_counterexample:
  "person_exists store5 1 \<and>
   map_option cy_total_amount (getActiveCycle store5 1) = Some 9007199254740992 \<and>
   getTodayCollection clock1 store5 1 = None \<and>
   fst (recordCollection clock1 1 1 None store5) = Inr () \<and>
   map_option cy_total_amount (getActiveCycle (snd (recordCollection clock1 1 1 None store5)) 1)
     = Some 9007199254740992 \<and>
   fst (undoCollection clock1 1 (snd (recordCollection clock1 1 1 None store5))) = Inr () \<and>
   map_option cy_total_amount
     (getActiveCycle (snd (undoCollection clock1 1 (snd (recordCollection clock1 1 1 None store5)))) 1)
     = Some 9007199254740991 \<and>
   (9007199254740991::real) \<noteq> 9007199254740992"
  by (simp add: store5_def store_defs dbl_round_above_2p53)

section \<open>Partial withdrawal\<close>

lemma insert_withdrawal_ok:
  "person_exists s p \<Longrightarrow> cycle_exists s cid \<Longrightarrow>
   insert_withdrawal p cid amt d nts s =
     (Inr (next_rowid (seq_withdrawals s) (map w_id (withdrawals s))),
      s\<lparr>withdrawals := withdrawals s @
            [\<lparr>w_id = next_rowid (seq_withdrawals s) (map w_id (withdrawals s)), w_person_id = p,
              w_cycle_id = cid, w_amount = amt, w_date = d, w_notes = nts\<rparr>],
        seq_withdrawals := next_rowid (seq_withdrawals s) (map w_id (withdrawals s))\<rparr>)"
  by (simp add: insert_withdrawal_def Let_def)

text \<open>
  Claim C6. For a person in \<open>people\<close> whose active cycle has total \<open>T\<close>:
  \<open>processPartialWithdrawal(p, a)\<close> with \<open>a > T\<close> fails with \<open>InsufficientBalance\<close> and
  leaves the whole store as it was (no withdrawal row, the total still \<open>T\<close>); with
  \<open>a \<le> T\<close> it returns the id of the new withdrawal row, which carries the amount \<open>a\<close>
  against the active cycle, and the cycle stays active with total \<open>T - a\<close> (as a double).
\<close>

theorem processPartialWithdrawal_guard:
  assumes "person_exists s p" and "getActiveCycle s p = Some c"
  shows "(cy_total_amount c < a \<longrightarrow>
            processPartialWithdrawal clk p a nts s = (Inl InsufficientBalance, s)) \<and>
         (a \<le> cy_total_amount c \<longrightarrow>
            fst (processPartialWithdrawal clk p a nts s) =
              Inr (next_rowid (seq_withdrawals s) (map w_id (withdrawals s))) \<and>
            withdrawals (snd (processPartialWithdrawal clk p a nts s)) =
              withdrawals s @
                [\<lparr>w_id = next_rowid (seq_withdrawals s) (map w_id (withdrawals s)), w_person_id = p,
                  w_cycle_id = cy_id c, w_amount = a, w_date = clk_now clk,
                  w_notes = Some (or_default nts ''Partial withdrawal'')\<rparr>] \<and>
            getActiveCycle (snd (processPartialWithdrawal clk p a nts s)) p =
              Some (c\<lparr>cy_total_amount := dbl_round (cy_total_amount c - a)\<rparr>))"
proof (intro conjI impI)
  assume "cy_total_amount c < a"
  then show "processPartialWithdrawal clk p a nts s = (Inl InsufficientBalance, s)"
    using assms(2) by (simp add: processPartialWithdrawal_def)
next
  assume le: "a \<le> cy_total_amount c"
  let ?w = "s\<lparr>withdrawals := withdrawals s @
            [\<lparr>w_id = next_rowid (seq_withdrawals s) (map w_id (withdrawals s)), w_person_id = p,
              w_cycle_id = cy_id c, w_amount = a, w_date = clk_now clk,
              w_notes = Some (or_default nts ''Partial withdrawal'')\<rparr>],
        seq_withdrawals := next_rowid (seq_withdrawals s) (map w_id (withdrawals s))\<rparr>"
  have run: "processPartialWithdrawal clk p a nts s =
      (Inr (next_rowid (seq_withdrawals s) (map w_id (withdrawals s))),
       add_to_total (- a) (cy_id c) ?w)"
    using le assms insert_withdrawal_ok[OF assms(1) getActiveCycle_exists[OF assms(2)]]
    by (simp add: processPartialWithdrawal_def)
  show "fst (processPartialWithdrawal clk p a nts s) =
      Inr (next_rowid (seq_withdrawals s) (map w_id (withdrawals s)))"
    by (simp add: run)
  show "withdrawals (snd (processPartialWithdrawal clk p a nts s)) =
      withdrawals s @
        [\<lparr>w_id = next_rowid (seq_withdrawals s) (map w_id (withdrawals s)), w_person_id = p,
          w_cycle_id = cy_id c, w_amount = a, w_date = clk_now clk,
          w_notes = Some (or_default nts ''Partial withdrawal'')\<rparr>]"
    by (simp add: run add_to_total_def)
  have "getActiveCycle ?w p = Some c"
    using assms(2) by (simp add: getActiveCycle_def)
  from getActiveCycle_add_to_total_own[OF this, of "- a"]
  show "getActiveCycle (snd (processPartialWithdrawal clk p a nts s)) p =
      Some (c\<lparr>cy_total_amount := dbl_round (cy_total_amount c - a)\<rparr>)"
    by (simp add: run)
qed

theorem processPartialWithdrawal_guard_witness:
  "person_exists store1 1 \<and> getActiveCycle store1 1 = Some cycle1 \<and>
   processPartialWithdrawal clock1 1 600 None store1 = (Inl InsufficientBalance, store1) \<and>
   fst (processPartialWithdrawal clock1 1 200 None store1) = Inr 1 \<and>
   getActiveCycle (snd (processPartialWithdrawal clock1 1 200 None store1)) 1
     = Some (cycle1\<lparr>cy_total_amount := 300\<rparr>)"
proof -
  have h1: "person_exists store1 1" by (simp add: store_defs)
  have h2: "getActiveCycle store1 1 = Some cycle1" by (simp add: store_defs)
  have n: "next_rowid (seq_withdrawals store1) (map w_id (withdrawals store1)) = 1"
    by (simp add: store_defs)
  from processPartialWithdrawal_guard[OF h1 h2, of 600 clock1 None]
       processPartialWithdrawal_guard[OF h1 h2, of 200 clock1 None]
  show ?thesis using h1 h2 n by (simp add: cycle1_def)
qed

section \<open>Skipping a day\<close>

text \<open>
  Claim C7. For a person in \<open>people\<close>, \<open>skipCollection(p)\<close> returns and leaves exactly one
  row for the person and today, with status skipped and amount NULL. Every cycle row that
  existed is unchanged (a cycle is only added when the person had no active one), so the
  active cycle keeps its total whatever the day held before, a collected amount included.
\<close>

theorem skipCollection_keeps_total:
  assumes "person_exists s p"
  shows "fst (skipCollection clk p nts s) = Inr () \<and>
         map (\<lambda>r. (co_status r, co_amount r)) (rows_for (snd (skipCollection clk p nts s)) p (getTodayDate clk))
           = [(Skipped, None)] \<and>
         take (length (cycles s)) (cycles (snd (skipCollection clk p nts s))) = cycles s \<and>
         (getActiveCycle s p \<noteq> None \<longrightarrow>
            cycles (snd (skipCollection clk p nts s)) = cycles s \<and>
            getActiveCycle (snd (skipCollection clk p nts s)) p = getActiveCycle s p)"
proof (cases "getActiveCycle s p")
  case (Some c)
  have "skipCollection clk p nts s = (Inr (), upserted clk p (cy_id c) None Skipped (or_null nts) s)"
    by (rule skipCollection_active[OF assms Some])
  then show ?thesis
    using Some by (simp add: rows_for_upserted new_collection_def)
next
  case None
  let ?i = "next_rowid (seq_cycles s) (map cy_id (cycles s))"
  let ?row = "\<lparr>cy_id = ?i, cy_person_id = p, cy_start_date = getTodayDate clk, cy_end_date = None,
               cy_total_amount = 0, cy_is_active = True, cy_withdrawal_date = None, cy_notes = None\<rparr>"
  let ?s1 = "s\<lparr>cycles := cycles s @ [?row], seq_cycles := ?i\<rparr>"
  have a: "active_or_new_cycle clk p s = (Inr ?i, ?s1)"
    using None assms by (simp add: active_or_new_cycle_def createCycle_def insert_cycle_def Let_def)
  have pe: "person_exists ?s1 p" using assms by (simp add: person_exists_def)
  have ce: "cycle_exists ?s1 ?i" by (simp add: cycle_exists_def)
  have "skipCollection clk p nts s = (Inr (), upserted clk p ?i None Skipped (or_null nts) ?s1)"
    using insert_or_replace_ok[OF pe ce, of clk None Skipped "or_null nts"]
    by (simp add: skipCollection_def a)
  then show ?thesis
    using None by (simp add: rows_for_upserted new_collection_def)
qed

theorem skipCollection_keeps_total_witness:
  "person_exists store2 1 \<and>
   map_option cy_total_amount (getActiveCycle store2 1) = Some 550 \<and>
   map (\<lambda>r. (co_status r, co_amount r)) (rows_for store2 1 (getTodayDate clock1)) = [(Collected, Some 50)] \<and>
   fst (skipCollection clock1 1 None store2) = Inr () \<and>
   map (\<lambda>r. (co_status r, co_amount r)) (rows_for (snd (skipCollection clock1 1 None store2)) 1 (getTodayDate clock1))
     = [(Skipped, None)] \<and>
   map_option cy_total_amount (getActiveCycle (snd (skipCollection clock1 1 None store2)) 1) = Some 550"
proof -
  have h1: "person_exists store2 1" by (simp add: store_defs)
  have h2: "map_option cy_total_amount (getActiveCycle store2 1) = Some 550" by (simp add: store_defs)
  have h3: "map (\<lambda>r. (co_status r, co_amount r)) (rows_for store2 1 (getTodayDate clock1)) = [(Collected, Some 50)]"
    by (simp add: store_defs)
  from skipCollection_keeps_total[OF h1, of clock1 None]
  show ?thesis using h1 h2 h3 by auto
qed

section \<open>Manual correction\<close>

text \<open>
  Claim C9, as amended. \<open>updateCycleData(cycleId, {totalAmount})\<close> does not validate: it
  returns, every cycle with that id holds the given total afterwards, whatever its sign,
  and no other cycle changes.
\<close>

theorem updateCycleData_overwrites:
  "fst (updateCycleData cid (Some t) sd s) = Inr () \<and>
   map cy_total_amount (filter (\<lambda>c. cy_id c = cid) (cycles (snd (updateCycleData cid (Some t) sd s))))
     = map (\<lambda>c. t) (filter (\<lambda>c. cy_id c = cid) (cycles s)) \<and>
   filter (\<lambda>c. cy_id c \<noteq> cid) (cycles (snd (updateCycleData cid (Some t) sd s)))
     = filter (\<lambda>c. cy_id c \<noteq> cid) (cycles s)"
proof -
  have "map cy_total_amount (filter (\<lambda>c. cy_id c = cid)
          (map (\<lambda>c. if cy_id c = cid
                     then c\<lparr>cy_total_amount := t,
                            cy_start_date := (case sd of None \<Rightarrow> cy_start_date c | Some d \<Rightarrow> d)\<rparr>
                     else c) xs))
        = map (\<lambda>c. t) (filter (\<lambda>c. cy_id c = cid) xs)" for xs :: "cycle list"
    by (induction xs) auto
  moreover have "filter (\<lambda>c. cy_id c \<noteq> cid)
          (map (\<lambda>c. if cy_id c = cid
                     then c\<lparr>cy_total_amount := t,
                            cy_start_date := (case sd of None \<Rightarrow> cy_start_date c | Some d \<Rightarrow> d)\<rparr>
                     else c) xs)
        = filter (\<lambda>c. cy_id c \<noteq> cid) xs" for xs :: "cycle list"
    by (induction xs) auto
  ultimately show ?thesis by (simp add: updateCycleData_def cong: if_cong)
qed

text \<open>A total of -50 is accepted and stored.\<close>

theorem updateCycleData_negative_counterexample:
  "updateCycleData 1 (Some (- 50)) None store1 =
     (Inr (), store1\<lparr>cycles := [cycle1\<lparr>cy_total_amount := - 50\<rparr>]\<rparr>)"
  by (simp add: store_defs)

section \<open>Collecting after a skip\<close>


lemma rows_for_add_to_total [simp]: "rows_for (add_to_total x cid s) p d = rows_for s p d"
  by (simp add: rows_for_def)





section \<open>Full withdrawal\<close>

lemma closeCycle_ids [simp]: "map cy_id (cycles (closeCycle clk cid s)) = map cy_id (cycles s)"
  by (simp add: closeCycle_def comp_def cong: map_cong)

lemma closeCycle_no_active:
  assumes "getActiveCycle s p = Some c" and "length (active_cycles s p) \<le> 1"
  shows "getActiveCycle (closeCycle clk (cy_id c) s) p = None"
proof -
  let ?P = "\<lambda>x. cy_person_id x = p \<and> cy_is_active x"
  have c: "c \<in> set (cycles s)" "?P c" using getActiveCycle_mem[OF assms(1)] by simp_all
  have one: "length (filter ?P (cycles s)) \<le> 1" using assms(2) by (simp add: active_cycles_def)
  have "\<And>x. x \<in> set (cycles s) \<Longrightarrow> ?P x \<Longrightarrow> x = c"
    using filter_at_most_one[OF one _ _ c] by blast
  then show ?thesis
    by (auto simp: getActiveCycle_def closeCycle_def find_None_iff)
qed

lemma closeCycle_find_own:
  assumes "c \<in> set (cycles s)" and "distinct (map cy_id (cycles s))"
  shows "find (\<lambda>x. cy_id x = cy_id c) (cycles (closeCycle clk (cy_id c) s)) =
           Some (c\<lparr>cy_is_active := False, cy_end_date := Some (getTodayDate clk),
                   cy_withdrawal_date := Some (clk_now clk)\<rparr>)"
proof -
  have "find (\<lambda>x. cy_id x = cy_id c) (cycles s) = Some c"
    by (rule find_by_key_distinct[OF assms(2,1)])
  then show ?thesis
    by (simp add: closeCycle_def find_map_stable)
qed

text \<open>
  Claim C4. For a person in \<open>people\<close> whose one active cycle \<open>c\<close> has total \<open>T\<close> (cycle
  ids being a primary key), \<open>processWithdrawal(p)\<close> returns the id of a new withdrawal row
  with amount \<open>T\<close> against \<open>c\<close>; the row of \<open>c\<close> is now inactive with end date today;
  the person's active cycle is a new row with total 0 starting today; and the collections
  table is untouched, so \<open>getCollectionsByCycle\<close> of the old cycle returns what it did.
\<close>

theorem processWithdrawal_full:
  assumes "person_exists s p" and "getActiveCycle s p = Some c"
    and "length (active_cycles s p) \<le> 1" and "distinct (map cy_id (cycles s))"
    and "wid = next_rowid (seq_withdrawals s) (map w_id (withdrawals s))"
    and "nid = next_rowid (seq_cycles s) (map cy_id (cycles s))"
    and "s' = snd (processWithdrawal clk p nts s)"
  shows "fst (processWithdrawal clk p nts s) = Inr wid \<and>
         withdrawals s' = withdrawals s @
           [\<lparr>w_id = wid, w_person_id = p, w_cycle_id = cy_id c, w_amount = cy_total_amount c,
             w_date = clk_now clk, w_notes = or_null nts\<rparr>] \<and>
         find (\<lambda>x. cy_id x = cy_id c) (cycles s') =
           Some (c\<lparr>cy_is_active := False, cy_end_date := Some (getTodayDate clk),
                   cy_withdrawal_date := Some (clk_now clk)\<rparr>) \<and>
         getActiveCycle s' p =
           Some \<lparr>cy_id = nid, cy_person_id = p, cy_start_date = getTodayDate clk,
                 cy_end_date = None, cy_total_amount = 0, cy_is_active = True,
                 cy_withdrawal_date = None, cy_notes = None\<rparr> \<and>
         nid \<noteq> cy_id c \<and>
         length (cycles s') = Suc (length (cycles s)) \<and>
         collections s' = collections s \<and>
         getCollectionsByCycle s' (cy_id c) = getCollectionsByCycle s (cy_id c)"
proof -
  let ?w = "\<lparr>w_id = wid, w_person_id = p, w_cycle_id = cy_id c, w_amount = cy_total_amount c,
             w_date = clk_now clk, w_notes = or_null nts\<rparr>"
  let ?s1 = "s\<lparr>withdrawals := withdrawals s @ [?w], seq_withdrawals := wid\<rparr>"
  let ?s2 = "closeCycle clk (cy_id c) ?s1"
  let ?new = "\<lparr>cy_id = nid, cy_person_id = p, cy_start_date = getTodayDate clk,
                 cy_end_date = None, cy_total_amount = 0, cy_is_active = True,
                 cy_withdrawal_date = None, cy_notes = None\<rparr>"
  let ?s3 = "?s2\<lparr>cycles := cycles ?s2 @ [?new], seq_cycles := nid\<rparr>"
  have cmem: "c \<in> set (cycles s)" using getActiveCycle_mem[OF assms(2)] by simp
  have w: "insert_withdrawal p (cy_id c) (cy_total_amount c) (clk_now clk) (or_null nts) s = (Inr wid, ?s1)"
    using insert_withdrawal_ok[OF assms(1) getActiveCycle_exists[OF assms(2)]] assms(5) by simp
  have pe2: "person_exists ?s2 p" using assms(1) by (simp add: person_exists_def closeCycle_def)
  have ids2: "map cy_id (cycles ?s2) = map cy_id (cycles s)"
    using closeCycle_ids[of clk "cy_id c" ?s1] by simp
  have seq2: "seq_cycles ?s2 = seq_cycles s" by (simp add: closeCycle_def)
  have cr: "createCycle clk p ?s2 = (Inr nid, ?s3)"
    using pe2 ids2 seq2 assms(6) by (simp add: createCycle_def insert_cycle_def Let_def)
  have run: "processWithdrawal clk p nts s = (Inr wid, ?s3)"
    using assms(2) w cr by (simp add: processWithdrawal_def)
  have s': "s' = ?s3" using assms(7) run by simp
  have fresh: "nid \<noteq> cy_id c"
    using next_rowid_fresh[of "seq_cycles s" "map cy_id (cycles s)"] cmem assms(6) by auto
  have own: "find (\<lambda>x. cy_id x = cy_id c) (cycles ?s2) =
           Some (c\<lparr>cy_is_active := False, cy_end_date := Some (getTodayDate clk),
                   cy_withdrawal_date := Some (clk_now clk)\<rparr>)"
    using closeCycle_find_own[of c ?s1 clk] cmem assms(4) by simp
  have a1: "getActiveCycle ?s1 p = Some c" using assms(2) by (simp add: getActiveCycle_def)
  have l1: "length (active_cycles ?s1 p) \<le> 1" using assms(3) by (simp add: active_cycles_def)
  have none: "find (\<lambda>x. cy_person_id x = p \<and> cy_is_active x) (cycles ?s2) = None"
    using closeCycle_no_active[OF a1 l1, of clk] by (simp add: getActiveCycle_def)
  have act: "getActiveCycle ?s3 p = Some ?new"
    using none by (simp add: getActiveCycle_def find_append_cases)
  have col: "collections ?s3 = collections s" by (simp add: closeCycle_def)
  have len: "length (cycles ?s3) = Suc (length (cycles s))" by (simp add: closeCycle_def)
  have wd: "withdrawals ?s3 = withdrawals s @ [?w]" by (simp add: closeCycle_def)
  have fnd: "find (\<lambda>x. cy_id x = cy_id c) (cycles ?s3) =
           Some (c\<lparr>cy_is_active := False, cy_end_date := Some (getTodayDate clk),
                   cy_withdrawal_date := Some (clk_now clk)\<rparr>)"
    using own by (simp add: find_append_cases)
  show ?thesis
    unfolding s' using run fresh act col len wd fnd
    by (simp add: getCollectionsByCycle_def)
qed

theorem processWithdrawal_full_witness:
  "person_exists store1 1 \<and> getActiveCycle store1 1 = Some cycle1 \<and>
   length (active_cycles store1 1) \<le> 1 \<and> distinct (map cy_id (cycles store1)) \<and>
   fst (processWithdrawal clock1 1 None store1) = Inr 1 \<and>
   withdrawals (snd (processWithdrawal clock1 1 None store1)) =
     [\<lparr>w_id = 1, w_person_id = 1, w_cycle_id = 1, w_amount = 500,
       w_date = ''2025-01-10 09:00:00'', w_notes = None\<rparr>] \<and>
   map_option cy_total_amount (getActiveCycle (snd (processWithdrawal clock1 1 None store1)) 1) = Some 0 \<and>
   getCollectionsByCycle (snd (processWithdrawal clock1 1 None store1)) 1 = [paid_jan9]"
proof -
  have h1: "person_exists store1 1" by (simp add: store_defs)
  have h2: "getActiveCycle store1 1 = Some cycle1" by (simp add: store_defs)
  have h3: "length (active_cycles store1 1) \<le> 1" by (simp add: active_cycles_def store_defs)
  have h4: "distinct (map cy_id (cycles store1))" by (simp add: store_defs)
  have w: "next_rowid (seq_withdrawals store1) (map w_id (withdrawals store1)) = 1" by (simp add: store_defs)
  have g: "getCollectionsByCycle store1 1 = [paid_jan9]"
    by (simp add: getCollectionsByCycle_def store1_def paid_jan9_def)
  from processWithdrawal_full[OF h1 h2 h3 h4 refl refl refl, of clock1 None]
  show ?thesis using h1 h2 h3 h4 w g by (simp add: cycle1_def store1_def clock1_def)
qed

section \<open>At most one active cycle\<close>

lemma one_active_iff: "one_active s = (\<forall>p. length (active_cycles s p) \<le> 1)"
proof
  assume oa: "one_active s"
  show "\<forall>p. length (active_cycles s p) \<le> 1"
  proof
    fix p
    show "length (active_cycles s p) \<le> 1"
    proof (cases "active_cycles s p")
      case Nil
      then show ?thesis by simp
    next
      case (Cons c cs)
      then have "c \<in> set (active_cycles s p)" by simp
      then have "c \<in> set (cycles s)" "cy_person_id c = p" by (simp_all add: active_cycles_def)
      with oa show ?thesis by (auto simp: one_active_def list_all_iff)
    qed
  qed
next
  assume "\<forall>p. length (active_cycles s p) \<le> 1"
  then show "one_active s" by (simp add: one_active_def list_all_iff)
qed

lemma person_exists_iff: "person_exists s p = (p \<in> set (map p_id (people s)))"
  by (auto simp: person_exists_def list_ex_iff)

lemma length_filter_map_le:
  "(\<And>x. P (f x) \<Longrightarrow> Q x) \<Longrightarrow> length (filter P (map f xs)) \<le> length (filter Q xs)"
  by (induction xs) auto

lemma store_ok_map_cycles:
  assumes "store_ok s"
    and "cycles s' = map f (cycles s)"
    and "\<And>x. cy_person_id (f x) = cy_person_id x"
    and "\<And>x. cy_is_active (f x) \<Longrightarrow> cy_is_active x"
    and "\<And>q. person_exists s q \<Longrightarrow> person_exists s' q"
  shows "store_ok s'"
proof -
  have fk: "cycles_fk s'"
    using assms(1,2,3,5) by (auto simp: store_ok_def cycles_fk_def list_all_iff)
  have "length (active_cycles s' q) \<le> 1" for q
  proof -
    have "length (active_cycles s' q) \<le> length (active_cycles s q)"
      unfolding active_cycles_def assms(2)
      by (rule length_filter_map_le) (use assms(3,4) in auto)
    also have "\<dots> \<le> 1" using assms(1) by (simp add: store_ok_def one_active_iff)
    finally show ?thesis .
  qed
  with fk show ?thesis by (simp add: store_ok_def one_active_iff)
qed

lemma store_ok_same_cycles:
  "store_ok s \<Longrightarrow> cycles s' = cycles s \<Longrightarrow> (\<And>q. person_exists s q \<Longrightarrow> person_exists s' q)
   \<Longrightarrow> store_ok s'"
  using store_ok_map_cycles[of s s' "\<lambda>x. x"] by simp

lemma store_ok_new_cycle:
  assumes "store_ok s" and "person_exists s p" and "getActiveCycle s p = None"
    and "cycles s' = cycles s @ [n]" and "cy_person_id n = p"
    and "people s' = people s"
  shows "store_ok s'"
proof -
  have pe: "person_exists s' q = person_exists s q" for q
    by (simp add: person_exists_def assms(6))
  have fk: "cycles_fk s'"
    using assms(1,2,4,5) pe by (auto simp: store_ok_def cycles_fk_def list_all_iff)
  have none: "active_cycles s p = []"
    using assms(3) by (auto simp: getActiveCycle_def active_cycles_def find_None_iff filter_empty_conv)
  have "length (active_cycles s' q) \<le> 1" for q
  proof (cases "q = p")
    case True
    then show ?thesis using none by (simp add: active_cycles_def assms(4))
  next
    case False
    then have "active_cycles s' q = active_cycles s q"
      using assms(5) by (simp add: active_cycles_def assms(4))
    then show ?thesis using assms(1) by (simp add: store_ok_def one_active_iff)
  qed
  with fk show ?thesis by (simp add: store_ok_def one_active_iff)
qed

lemma store_ok_createCycle:
  assumes "store_ok s" and "getActiveCycle s p = None"
  shows "store_ok (snd (createCycle clk p s))"
proof (cases "person_exists s p")
  case False
  then show ?thesis using assms(1) by (simp add: createCycle_def insert_cycle_def)
next
  case True
  let ?n = "\<lparr>cy_id = next_rowid (seq_cycles s) (map cy_id (cycles s)), cy_person_id = p,
              cy_start_date = getTodayDate clk, cy_end_date = None, cy_total_amount = 0,
              cy_is_active = True, cy_withdrawal_date = None, cy_notes = None\<rparr>"
  have "cycles (snd (createCycle clk p s)) = cycles s @ [?n]"
    and "people (snd (createCycle clk p s)) = people s"
    using True by (simp_all add: createCycle_def insert_cycle_def Let_def)
  then show ?thesis
    using store_ok_new_cycle[OF assms(1) True assms(2), of "snd (createCycle clk p s)" ?n]
    by simp
qed

lemma store_ok_add_to_total: "store_ok s \<Longrightarrow> store_ok (add_to_total d cid s)"
  by (rule store_ok_map_cycles[where f = "\<lambda>c. if cy_id c = cid
        then c\<lparr>cy_total_amount := dbl_round (cy_total_amount c + d)\<rparr> else c"])
     (simp_all add: add_to_total_def person_exists_def split: if_splits)

lemma store_ok_closeCycle: "store_ok s \<Longrightarrow> store_ok (closeCycle clk cid s)"
  by (rule store_ok_map_cycles[where f = "\<lambda>c. if cy_id c = cid
        then c\<lparr>cy_is_active := False, cy_end_date := Some (getTodayDate clk),
               cy_withdrawal_date := Some (clk_now clk)\<rparr> else c"])
     (simp_all add: closeCycle_def person_exists_def split: if_splits)

lemma store_ok_delete_collection: "store_ok s \<Longrightarrow> store_ok (delete_collection p d s)"
  by (erule store_ok_same_cycles) (simp_all add: delete_collection_def person_exists_def)

lemma store_ok_insert_or_replace:
  "store_ok s \<Longrightarrow> store_ok (snd (insert_or_replace_collection clk p cid d amt st nts s))"
  by (erule store_ok_same_cycles)
     (simp_all add: insert_or_replace_collection_def person_exists_def Let_def)

lemma store_ok_insert_withdrawal:
  "store_ok s \<Longrightarrow> store_ok (snd (insert_withdrawal p cid amt d nts s))"
  by (erule store_ok_same_cycles)
     (simp_all add: insert_withdrawal_def person_exists_def Let_def)

lemma cycles_insert_withdrawal [simp]:
  "cycles (snd (insert_withdrawal p cid amt d nts s)) = cycles s"
  by (simp add: insert_withdrawal_def Let_def)

lemma store_ok_active_or_new: "store_ok s \<Longrightarrow> store_ok (snd (active_or_new_cycle clk p s))"
  by (cases "getActiveCycle s p") (simp_all add: active_or_new_cycle_def store_ok_createCycle)

lemma store_ok_recordCollection:
  assumes "store_ok s"
  shows "store_ok (snd (recordCollection clk p a nts s))"
proof -
  obtain r1 s1 where a1: "active_or_new_cycle clk p s = (r1, s1)" by (cases "active_or_new_cycle clk p s")
  have ok1: "store_ok s1" using store_ok_active_or_new[OF assms, of clk p] a1 by simp
  show ?thesis
  proof (cases r1)
    case (Inl e)
    then show ?thesis using a1 ok1 by (simp add: recordCollection_def)
  next
    case (Inr cid)
    obtain r2 s2 where a2: "insert_or_replace_collection clk p cid (getTodayDate clk)
                     (Some a) Collected (or_null nts) s1 = (r2, s2)"
      by (cases "insert_or_replace_collection clk p cid (getTodayDate clk)
                     (Some a) Collected (or_null nts) s1")
    have ok2: "store_ok s2"
      using store_ok_insert_or_replace[OF ok1, of clk p cid "getTodayDate clk" "Some a" Collected "or_null nts"] a2
      by simp
    show ?thesis
      using a1 Inr a2 ok2 by (cases r2) (simp_all add: recordCollection_def store_ok_add_to_total)
  qed
qed

lemma store_ok_skipCollection:
  assumes "store_ok s"
  shows "store_ok (snd (skipCollection clk p nts s))"
proof -
  obtain r1 s1 where a1: "active_or_new_cycle clk p s = (r1, s1)" by (cases "active_or_new_cycle clk p s")
  have ok1: "store_ok s1" using store_ok_active_or_new[OF assms, of clk p] a1 by simp
  show ?thesis
  proof (cases r1)
    case (Inl e)
    then show ?thesis using a1 ok1 by (simp add: skipCollection_def)
  next
    case (Inr cid)
    obtain r2 s2 where a2: "insert_or_replace_collection clk p cid (getTodayDate clk)
                     None Skipped (or_null nts) s1 = (r2, s2)"
      by (cases "insert_or_replace_collection clk p cid (getTodayDate clk)
                     None Skipped (or_null nts) s1")
    have ok2: "store_ok s2"
      using store_ok_insert_or_replace[OF ok1, of clk p cid "getTodayDate clk" None Skipped "or_null nts"] a2
      by simp
    show ?thesis
      using a1 Inr a2 ok2 by (cases r2) (simp_all add: skipCollection_def)
  qed
qed

lemma store_ok_undoCollection: "store_ok s \<Longrightarrow> store_ok (snd (undoCollection clk p s))"
  by (simp add: undoCollection_def Let_def store_ok_delete_collection store_ok_add_to_total
      split: option.splits)

lemma store_ok_processPartialWithdrawal:
  assumes "store_ok s"
  shows "store_ok (snd (processPartialWithdrawal clk p a nts s))"
proof (cases "getActiveCycle s p")
  case None
  then show ?thesis using assms by (simp add: processPartialWithdrawal_def)
next
  case (Some c)
  obtain r1 s1 where w: "insert_withdrawal p (cy_id c) a (clk_now clk)
                    (Some (or_default nts ''Partial withdrawal'')) s = (r1, s1)"
    by (cases "insert_withdrawal p (cy_id c) a (clk_now clk)
                    (Some (or_default nts ''Partial withdrawal'')) s")
  have ok1: "store_ok s1"
    using store_ok_insert_withdrawal[OF assms, of p "cy_id c" a "clk_now clk" "Some (or_default nts ''Partial withdrawal'')"] w
    by simp
  show ?thesis
    using Some w ok1 assms
    by (cases r1) (simp_all add: processPartialWithdrawal_def store_ok_add_to_total)
qed

lemma store_ok_processWithdrawal:
  assumes "store_ok s"
  shows "store_ok (snd (processWithdrawal clk p nts s))"
proof (cases "getActiveCycle s p")
  case None
  then show ?thesis using assms by (simp add: processWithdrawal_def)
next
  case (Some c)
  obtain r1 s1 where w: "insert_withdrawal p (cy_id c) (cy_total_amount c) (clk_now clk)
                    (or_null nts) s = (r1, s1)"
    by (cases "insert_withdrawal p (cy_id c) (cy_total_amount c) (clk_now clk) (or_null nts) s")
  have ok1: "store_ok s1"
    using store_ok_insert_withdrawal[OF assms, of p "cy_id c" "cy_total_amount c" "clk_now clk" "or_null nts"] w
    by simp
  have cy1: "cycles s1 = cycles s"
    using cycles_insert_withdrawal[of p "cy_id c" "cy_total_amount c" "clk_now clk" "or_null nts" s] w
    by simp
  show ?thesis
  proof (cases r1)
    case (Inl e)
    then show ?thesis using Some w ok1 by (simp add: processWithdrawal_def)
  next
    case (Inr wid)
    have a1: "getActiveCycle s1 p = Some c" using Some cy1 by (simp add: getActiveCycle_def)
    have "length (active_cycles s1 p) \<le> 1" using ok1 by (simp add: store_ok_def one_active_iff)
    then have none: "getActiveCycle (closeCycle clk (cy_id c) s1) p = None"
      by (rule closeCycle_no_active[OF a1])
    have ok3: "store_ok (snd (createCycle clk p (closeCycle clk (cy_id c) s1)))"
      by (rule store_ok_createCycle[OF store_ok_closeCycle[OF ok1] none])
    obtain r3 s3 where c3: "createCycle clk p (closeCycle clk (cy_id c) s1) = (r3, s3)"
      by (cases "createCycle clk p (closeCycle clk (cy_id c) s1)")
    show ?thesis
      using Some w Inr c3 ok3 by (cases r3) (simp_all add: processWithdrawal_def)
  qed
qed

lemma store_ok_deletePerson:
  assumes "store_ok s"
  shows "store_ok (snd (deletePerson i s))"
proof (rule store_ok_same_cycles[OF assms])
  show "cycles (snd (deletePerson i s)) = cycles s" by (simp add: deletePerson_def)
  have "map p_id (people (snd (deletePerson i s))) = map p_id (people s)"
    by (simp add: deletePerson_def comp_def cong: map_cong)
  then show "person_exists s q \<Longrightarrow> person_exists (snd (deletePerson i s)) q" for q
    by (simp add: person_exists_iff)
qed

lemma store_ok_addPerson:
  assumes "store_ok s"
  shows "store_ok (snd (addPerson clk pin s))"
proof -
  let ?i = "next_rowid (seq_people s) (map p_id (people s))"
  obtain r1 s1 where ip: "insert_person clk (pi_name pin) (or_null (pi_phone pin))
        (or_null (pi_location pin)) (or_null (pi_photo_path pin)) (pi_default_amount pin)
        (or_default (pi_frequency pin) ''daily'') (or_null (pi_notes pin)) (pi_is_active pin) s = (r1, s1)"
    by (cases "insert_person clk (pi_name pin) (or_null (pi_phone pin))
        (or_null (pi_location pin)) (or_null (pi_photo_path pin)) (pi_default_amount pin)
        (or_default (pi_frequency pin) ''daily'') (or_null (pi_notes pin)) (pi_is_active pin) s")
  have r1: "r1 = Inr ?i" and cy1: "cycles s1 = cycles s"
    and pe1: "\<And>q. person_exists s q \<Longrightarrow> person_exists s1 q"
    using ip by (auto simp: insert_person_def Let_def person_exists_def)
  have ok1: "store_ok s1" by (rule store_ok_same_cycles[OF assms cy1 pe1])
  have "?i \<notin> set (map p_id (people s))" by (rule next_rowid_fresh)
  then have "\<not> person_exists s ?i" by (simp add: person_exists_iff)
  then have "\<forall>c\<in>set (cycles s). cy_person_id c \<noteq> ?i"
    using assms by (auto simp: store_ok_def cycles_fk_def list_all_iff)
  then have none: "getActiveCycle s1 ?i = None"
    by (auto simp: getActiveCycle_def cy1 find_None_iff)
  have ok2: "store_ok (snd (createCycle clk ?i s1))"
    by (rule store_ok_createCycle[OF ok1 none])
  obtain r2 s2 where c2: "createCycle clk ?i s1 = (r2, s2)" by (cases "createCycle clk ?i s1")
  show ?thesis
    using ip r1 c2 ok2 by (cases r2) (simp_all add: addPerson_def)
qed

lemma store_ok_exec: "store_ok s \<Longrightarrow> store_ok (exec clk call s)"
  by (cases call)
     (simp_all add: store_ok_addPerson store_ok_deletePerson store_ok_recordCollection
        store_ok_skipCollection store_ok_undoCollection store_ok_processWithdrawal
        store_ok_processPartialWithdrawal)

lemma store_ok_run: "store_ok s \<Longrightarrow> \<forall>s'\<in>set (run calls s). store_ok s'"
proof (induction calls arbitrary: s)
  case Nil
  then show ?case by simp
next
  case (Cons c calls)
  have "store_ok (exec (fst c) (snd c) s)" by (rule store_ok_exec[OF Cons.prems])
  with Cons.IH[of "exec (fst c) (snd c) s"] show ?case by simp
qed

text \<open>
  Claim C3. From a store where every person has at most one active cycle (and, as the
  foreign key guarantees, every cycle belongs to a row of \<open>people\<close>), after each call of
  any sequence of \<open>addPerson\<close>, \<open>deletePerson\<close>, \<open>recordCollection\<close>, \<open>skipCollection\<close>,
  \<open>undoCollection\<close>, \<open>processWithdrawal\<close> and \<open>processPartialWithdrawal\<close>, whether the
  call returns or throws, every person has at most one active cycle.
\<close>

theorem one_active_cycle_invariant:
  assumes "cycles_fk s" and "one_active s"
  shows "\<forall>s'\<in>set (run calls s). \<forall>p. length (active_cycles s' p) \<le> 1"
  using store_ok_run[of s calls] assms by (simp add: store_ok_def one_active_iff)


theorem one_active_cycle_invariant_witness:
  "cycles_fk store1 \<and> one_active store1 \<and>
   length (active_cycles
     (exec clock1 (RecordCollection 2 100 None)
        (exec clock1 (AddPerson ravi) (exec clock1 (ProcessWithdrawal 1 None) store1))) 2) \<le> 1 \<and>
   map (\<lambda>s'. (length (active_cycles s' 1), length (active_cycles s' 2)))
     (run [(clock1, ProcessWithdrawal 1 None), (clock1, AddPerson ravi),
           (clock1, RecordCollection 2 100 None)] store1) = [(1, 0), (1, 1), (1, 1)]"
proof -
  let ?calls = "[(clock1, ProcessWithdrawal 1 None), (clock1, AddPerson ravi),
                 (clock1, RecordCollection 2 100 None)]"
  let ?s3 = "exec clock1 (RecordCollection 2 100 None)
        (exec clock1 (AddPerson ravi) (exec clock1 (ProcessWithdrawal 1 None) store1))"
  have h1: "cycles_fk store1" by (simp add: cycles_fk_def store_defs)
  have h2: "one_active store1" by (simp add: one_active_def active_cycles_def store_defs)
  have mem: "?s3 \<in> set (run ?calls store1)" by (simp del: exec.simps)
  have ev: "map (\<lambda>s'. (length (active_cycles s' 1), length (active_cycles s' 2)))
     (run ?calls store1) = [(1, 0), (1, 1), (1, 1)]"
    by (simp add: active_cycles_def ravi_def store_defs)
  from one_active_cycle_invariant[OF h1 h2, of ?calls] mem
  have "length (active_cycles ?s3 2) \<le> 1" by blast
  with h1 h2 ev show ?thesis by blast
qed

section \<open>Negative totals\<close>

text \<open>
  Claim C2 fails on the code. \<open>undoCollection\<close> and a repeated \<open>recordCollection\<close>
  subtract the amount stored for the day from the active cycle without comparing it with
  the cycle's total. From \<open>store1\<close> (total 500): collect 100, withdraw 600 partially, undo
  leaves -100; collect 100, withdraw in full, collect 50 leaves -50 in the new cycle.
\<close>

theorem totals_go_negative:
  "totals_nonneg store1 \<and>
   map (\<lambda>s'. map cy_total_amount (cycles s'))
     (run [(clock1, RecordCollection 1 100 None), (clock1, ProcessPartialWithdrawal 1 600 None),
           (clock1, UndoCollection 1)] store1) = [[600], [0], [- 100]] \<and>
   map (\<lambda>s'. map cy_total_amount (cycles s'))
     (run [(clock1, RecordCollection 1 100 None), (clock1, ProcessWithdrawal 1 None),
           (clock1, RecordCollection 1 50 None)] store1) = [[600], [600, 0], [600, - 50]] \<and>
   \<not> totals_nonneg
       (last (run [(clock1, RecordCollection 1 100 None),
                   (clock1, ProcessPartialWithdrawal 1 600 None),
                   (clock1, UndoCollection 1)] store1))"
  by (simp add: totals_nonneg_def store_defs)

section \<open>Restore\<close>

lemmas restore_defs =
  store4_def clock2_def exportDatabaseAsJSON_def getAllPeople_def getCyclesByPerson_def
  getAllCollectionsForPerson_def getWithdrawalsByPerson_def importDatabaseFromJSON_def
  import_person_def amount_or_zero_def

text \<open>
  Claim C8 fails on the code. \<open>store4\<close> holds a closed cycle 1 (total 500) that owns the
  collection and the withdrawal of 500, and an active cycle 2. Restoring the export of
  \<open>store4\<close> inserts a single cycle, the active one, and attaches the collection and the
  withdrawal to it: the closed cycle is not restored.
\<close>

theorem restore_drops_closed_cycles:
  "map (\<lambda>c. (cy_id c, cy_is_active c, cy_total_amount c)) (cycles store4)
     = [(1, False, 500), (2, True, 0)] \<and>
   map (\<lambda>c. (co_cycle_id c, co_amount c)) (collections store4) = [(1, Some 500)] \<and>
   map (\<lambda>w. (w_cycle_id w, w_amount w)) (withdrawals store4) = [(1, 500)] \<and>
   map (\<lambda>d. map cy_id (pd_cycles d)) (exportDatabaseAsJSON store4) = [[2, 1]] \<and>
   fst (importDatabaseFromJSON clock2 (exportDatabaseAsJSON store4) store4) = Inr 1 \<and>
   map (\<lambda>c. (cy_id c, cy_is_active c, cy_total_amount c))
     (cycles (snd (importDatabaseFromJSON clock2 (exportDatabaseAsJSON store4) store4)))
     = [(3, True, 0)] \<and>
   map (\<lambda>c. (co_cycle_id c, co_amount c))
     (collections (snd (importDatabaseFromJSON clock2 (exportDatabaseAsJSON store4) store4)))
     = [(3, Some 500)] \<and>
   map (\<lambda>w. (w_cycle_id w, w_amount w))
     (withdrawals (snd (importDatabaseFromJSON clock2 (exportDatabaseAsJSON store4) store4)))
     = [(3, 500)]"
  by (simp add: restore_defs store_defs)

end
